theory Spec2Isabelle
  imports
    Main
    "HOL-Library.Char_ord"
    "HOL-Library.List_Lexorder"
    "HOL-Library.AList"
begin

section \<open>Python strings\<close>

text \<open>
  Python strings are modelled as \<^typ>\<open>string\<close>; the model covers ASCII text. The
  helpers below are the \<^verbatim>\<open>str\<close> methods the emulator calls, restricted to
  ASCII: characters outside ASCII are neither whitespace, nor letters, nor digits.
\<close>

datatype py_error = IndexError | AttributeError | OSError

definition is_space :: "char \<Rightarrow> bool" where
  \<comment> \<open>\<^verbatim>\<open>str.isspace\<close> on ASCII: TAB, LF, VT, FF, CR, FS, GS, RS, US and space.\<close>
  "is_space c = (let n = (of_char c :: nat) in (9 \<le> n \<and> n \<le> 13) \<or> (28 \<le> n \<and> n \<le> 32))"

definition is_alnum :: "char \<Rightarrow> bool" where
  \<comment> \<open>\<^verbatim>\<open>str.isalnum\<close> on ASCII.\<close>
  "is_alnum c = (let n = (of_char c :: nat) in
     (48 \<le> n \<and> n \<le> 57) \<or> (65 \<le> n \<and> n \<le> 90) \<or> (97 \<le> n \<and> n \<le> 122))"

definition lower_char :: "char \<Rightarrow> char" where
  "lower_char c = (let n = (of_char c :: nat) in
     if 65 \<le> n \<and> n \<le> 90 then char_of (n + 32) else c)"

definition py_lower :: "string \<Rightarrow> string" where
  \<comment> \<open>\<^verbatim>\<open>s.lower()\<close>\<close>
  "py_lower s = map lower_char s"

definition strip_chars :: "(char \<Rightarrow> bool) \<Rightarrow> string \<Rightarrow> string" where
  \<comment> \<open>\<^verbatim>\<open>s.strip(chars)\<close>: drop the characters of the set at both ends.\<close>
  "strip_chars P s = rev (dropWhile P (rev (dropWhile P s)))"

definition py_strip :: "string \<Rightarrow> string" where
  \<comment> \<open>\<^verbatim>\<open>s.strip()\<close>\<close>
  "py_strip s = strip_chars is_space s"

fun split_ws :: "string \<Rightarrow> string \<Rightarrow> string list" where
  \<comment> \<open>the scan behind \<^verbatim>\<open>s.split()\<close>; the first argument is the word being read\<close>
  "split_ws cur [] = (if cur = [] then [] else [cur])"
| "split_ws cur (c # cs) =
     (if is_space c then (if cur = [] then split_ws [] cs else cur # split_ws [] cs)
      else split_ws (cur @ [c]) cs)"

definition py_words :: "string \<Rightarrow> string list" where
  \<comment> \<open>\<^verbatim>\<open>s.split()\<close>: the maximal runs of non-whitespace characters.\<close>
  "py_words s = split_ws [] s"

fun py_split :: "char \<Rightarrow> string \<Rightarrow> string list" where
  \<comment> \<open>\<^verbatim>\<open>s.split(sep)\<close> for a one-character separator\<close>
  "py_split sep [] = [[]]"
| "py_split sep (c # cs) =
     (if c = sep then [] # py_split sep cs
      else (case py_split sep cs of [] \<Rightarrow> [[c]] | w # ws \<Rightarrow> (c # w) # ws))"

fun py_join :: "string \<Rightarrow> string list \<Rightarrow> string" where
  \<comment> \<open>\<^verbatim>\<open>sep.join(xs)\<close>\<close>
  "py_join sep [] = []"
| "py_join sep [x] = x"
| "py_join sep (x # y # ys) = x @ sep @ py_join sep (y # ys)"

definition startswith :: "string \<Rightarrow> string \<Rightarrow> bool" where
  \<comment> \<open>\<^verbatim>\<open>s.startswith(p)\<close>\<close>
  "startswith s p = (take (length p) s = p)"

definition endswith :: "string \<Rightarrow> string \<Rightarrow> bool" where
  \<comment> \<open>\<^verbatim>\<open>s.endswith(p)\<close>\<close>
  "endswith s p = (length p \<le> length s \<and> drop (length s - length p) s = p)"

section \<open>Host paths (posixpath)\<close>

definition basename :: "string \<Rightarrow> string" where
  \<comment> \<open>\<^verbatim>\<open>os.path.basename\<close>: what follows the last slash\<close>
  "basename p = last (py_split CHR ''/'' p)"

definition isabs :: "string \<Rightarrow> bool" where
  \<comment> \<open>\<^verbatim>\<open>os.path.isabs\<close>\<close>
  "isabs p = startswith p ''/''"

definition join2 :: "string \<Rightarrow> string \<Rightarrow> string" where
  \<comment> \<open>one round of the loop of \<^verbatim>\<open>os.path.join\<close>\<close>
  "join2 path b =
     (if startswith b ''/'' then b
      else if path = [] \<or> endswith path ''/'' then path @ b
      else path @ ''/'' @ b)"

definition os_path_join :: "string \<Rightarrow> string list \<Rightarrow> string" where
  \<comment> \<open>\<^verbatim>\<open>os.path.join(a, *p)\<close>\<close>
  "os_path_join a p = foldl join2 a p"

fun normpath_comps :: "bool \<Rightarrow> string list \<Rightarrow> string list \<Rightarrow> string list" where
  \<comment> \<open>the component loop of \<^verbatim>\<open>os.path.normpath\<close>; the second argument is
     \<^verbatim>\<open>new_comps\<close>\<close>
  "normpath_comps initial_slashes new_comps [] = new_comps"
| "normpath_comps initial_slashes new_comps (cmp # comps) =
     (if cmp = [] \<or> cmp = ''.'' then normpath_comps initial_slashes new_comps comps
      else if cmp \<noteq> ''..'' \<or> (\<not> initial_slashes \<and> new_comps = [])
              \<or> (new_comps \<noteq> [] \<and> last new_comps = ''..'')
      then normpath_comps initial_slashes (new_comps @ [cmp]) comps
      else if new_comps \<noteq> [] then normpath_comps initial_slashes (butlast new_comps) comps
      else normpath_comps initial_slashes new_comps comps)"

definition normpath :: "string \<Rightarrow> string" where
  \<comment> \<open>\<^verbatim>\<open>os.path.normpath\<close>\<close>
  "normpath path =
     (if path = [] then ''.''
      else
        let initial_slashes =
              (if startswith path ''/''
               then (if startswith path ''//'' \<and> \<not> startswith path ''///'' then 2 else 1)
               else (0::nat));
            comps = normpath_comps (initial_slashes \<noteq> 0) [] (py_split CHR ''/'' path);
            path' = replicate initial_slashes CHR ''/'' @ py_join ''/'' comps
        in if path' = [] then ''.'' else path')"

definition abspath :: "string \<Rightarrow> string \<Rightarrow> string" where
  \<comment> \<open>\<^verbatim>\<open>os.path.abspath\<close>; the first argument is \<^verbatim>\<open>os.getcwd()\<close>\<close>
  "abspath cwd path = normpath (if isabs path then path else os_path_join cwd [path])"

fun common_prefix_len :: "string list \<Rightarrow> string list \<Rightarrow> nat" where
  "common_prefix_len (x # xs) (y # ys) = (if x = y then Suc (common_prefix_len xs ys) else 0)"
| "common_prefix_len _ _ = 0"

definition relpath :: "string \<Rightarrow> string \<Rightarrow> string \<Rightarrow> string" where
  \<comment> \<open>\<^verbatim>\<open>os.path.relpath(path, start)\<close> for a non-empty \<^verbatim>\<open>path\<close>\<close>
  "relpath cwd path start =
     (let start_list = filter (\<lambda>x. x \<noteq> []) (py_split CHR ''/'' (abspath cwd start));
          path_list = filter (\<lambda>x. x \<noteq> []) (py_split CHR ''/'' (abspath cwd path));
          i = common_prefix_len start_list path_list;
          rel_list = replicate (length start_list - i) ''..'' @ drop i path_list
      in case rel_list of [] \<Rightarrow> ''.'' | r # rs \<Rightarrow> os_path_join r rs)"

section \<open>Global state and the path resolver\<close>

record globals =
  STATE_DIR :: string
  BATCH_ROOT :: string
  CURRENT_DIR :: string
  LAST_ERROR :: "string option"

text \<open>What the host answers: the process's working directory and \<^verbatim>\<open>os.path.isdir\<close>.\<close>

record host =
  getcwd :: string
  isdir :: "string \<Rightarrow> bool"

definition ok :: "string \<Rightarrow> string" where
  "ok msg = ''[OK] '' @ msg"

definition err :: "string \<Rightarrow> globals \<Rightarrow> string \<times> globals" where
  \<comment> \<open>\<^verbatim>\<open>_err\<close> records the message in \<^verbatim>\<open>LAST_ERROR\<close>\<close>
  "err msg g = (''[ERR] '' @ msg, g\<lparr>LAST_ERROR := Some msg\<rparr>)"

definition resolve_state_path :: "globals \<Rightarrow> string \<Rightarrow> string" where
  "resolve_state_path g filename =
     (if filename = [] then
        (if CURRENT_DIR g \<noteq> [] then os_path_join (STATE_DIR g) [CURRENT_DIR g] else STATE_DIR g)
      else
        let fname = py_strip filename in
        if isabs fname then fname
        else if CHR ''>'' \<in> set fname then
          let parts = filter (\<lambda>p. p \<noteq> []) (py_split CHR ''>'' fname) in
          if startswith fname ''>'' then os_path_join (STATE_DIR g) parts
          else
            let base_parts = (if CURRENT_DIR g \<noteq> [] then py_split CHR ''/'' (CURRENT_DIR g) else [])
            in os_path_join (STATE_DIR g) (base_parts @ parts)
        else
          let base = (if CURRENT_DIR g \<noteq> [] then os_path_join (STATE_DIR g) [CURRENT_DIR g]
                      else STATE_DIR g)
          in os_path_join base [fname])"

definition vos_path :: "string \<Rightarrow> string" where
  \<comment> \<open>the legacy notation of a working directory, as \<^verbatim>\<open>h_display_current_dir\<close> and
     \<^verbatim>\<open>h_change_current_dir\<close> compute it\<close>
  "vos_path current_dir =
     (if current_dir = [] then ''>'' else ''>'' @ py_join ''>'' (py_split CHR ''/'' current_dir))"

definition h_display_current_dir :: "string list \<Rightarrow> globals \<Rightarrow> string \<times> globals" where
  "h_display_current_dir args g =
     (if args \<noteq> [] then err ''usage: display_current_dir'' g
      else (''Current directory: '' @ vos_path (CURRENT_DIR g), g))"

definition h_change_current_dir :: "host \<Rightarrow> string list \<Rightarrow> globals \<Rightarrow> string \<times> globals" where
  "h_change_current_dir os args g =
     (if length args \<noteq> 1 then err ''usage: change_current_dir <path>'' g
      else
        let target = hd args;
            new_path = resolve_state_path g target
        in if \<not> isdir os new_path
           then err (''change_current_dir: target directory does not exist: '' @ new_path) g
           else
             let abs_state = abspath (getcwd os) (STATE_DIR g);
                 abs_new = abspath (getcwd os) new_path
             in if \<not> startswith abs_new abs_state
                then err (''change_current_dir: target '' @ new_path @ '' is outside STATE_DIR'') g
                else
                  let rel = relpath (getcwd os) abs_new abs_state;
                      g' = g\<lparr>CURRENT_DIR := (if rel = ''.'' then [] else rel)\<rparr>
                  in (ok (''current directory set to '' @ vos_path (CURRENT_DIR g')), g'))"

section \<open>Batch: deriving the process name\<close>

definition is_quote :: "char \<Rightarrow> bool" where
  "is_quote c = (c = CHR 0x27 \<or> c = CHR 0x22)"

definition derive_process_name :: "string \<Rightarrow> py_error + string" where
  "derive_process_name command_line =
     (if command_line = [] then Inr ''batch''
      else case py_words (py_strip command_line) of
        [] \<Rightarrow> Inl IndexError
      | first_word # _ \<Rightarrow>
          let first_word = strip_chars is_quote first_word;
              first_word = (if CHR ''>'' \<in> set first_word
                            then last (py_split CHR ''>'' first_word) else first_word);
              first_word = basename first_word;
              first_word = (if CHR ''.'' \<in> set first_word
                            then hd (py_split CHR ''.'' first_word) else first_word);
              name = filter (\<lambda>ch. is_alnum ch \<or> ch = CHR ''_'' \<or> ch = CHR ''-'') first_word;
              name = (if name = [] then ''batch'' else name)
          in Inr (take 32 name))"

definition relative_dir :: "string \<Rightarrow> bool" where
  \<comment> \<open>a working directory whose legacy notation can be read back: empty, or slash-separated
     non-empty segments without the legacy separator, not ending in whitespace\<close>
  "relative_dir d =
     (d = [] \<or> (CHR ''>'' \<notin> set d \<and> [] \<notin> set (py_split CHR ''/'' d) \<and> \<not> is_space (last d)))"

text \<open>A host and a state used in the examples.\<close>

definition host_example :: host where
  "host_example = \<lparr>getcwd = ''/w'',
     isdir = (\<lambda>p. p \<in> set [''/w/vos_state/filesystem'', ''/w/vos_state/filesystem/Sales'',
                             ''/w/vos_state/filesystem/a>b'', ''/tmp''])\<rparr>"

definition globals_example :: globals where
  "globals_example = \<lparr>STATE_DIR = ''/w/vos_state/filesystem'',
     BATCH_ROOT = ''/w/vos_state/vos_internals/batches'', CURRENT_DIR = [], LAST_ERROR = None\<rparr>"

definition host_sibling_example :: host where
  \<comment> \<open>a host on which the state directory has the sibling \<^verbatim>\<open>filesystem2\<close>\<close>
  "host_sibling_example = \<lparr>getcwd = ''/w'',
     isdir = (\<lambda>p. p \<in> set [''/w/vos_state/filesystem'', ''/w/vos_state/filesystem2'',
                             ''/w/vos_state/filesystem/../filesystem2''])\<rparr>"

definition inside_root :: "string \<Rightarrow> string \<Rightarrow> string \<Rightarrow> bool" where
  \<comment> \<open>the containment that the comments of the handler ask for: the normalised absolute path
     is the normalised absolute root or lies below it\<close>
  "inside_root cwd root path =
     (let r = abspath cwd root; p = abspath cwd path
      in p = r \<or> startswith p (if endswith r ''/'' then r else r @ ''/''))"

definition derive_process_name_spec :: "string \<Rightarrow> string" where
  \<comment> \<open>the derivation as the specification words it: the extension is what follows the
     \<^emph>\<open>last\<close> dot\<close>
  "derive_process_name_spec command_line =
     (let first_word = (case py_words command_line of [] \<Rightarrow> [] | w # _ \<Rightarrow> w);
          first_word = strip_chars is_quote first_word;
          first_word = last (py_split CHR ''>'' first_word);
          first_word = basename first_word;
          first_word = (if CHR ''.'' \<in> set first_word
                        then rev (tl (dropWhile (\<lambda>c. c \<noteq> CHR ''.'') (rev first_word)))
                        else first_word);
          name = filter (\<lambda>ch. is_alnum ch \<or> ch = CHR ''_'' \<or> ch = CHR ''-'') first_word;
          name = (if name = [] then ''batch'' else name)
      in take 32 name)"

section \<open>The command registry and the resolver\<close>

text \<open>
  A registered command is a handler function of the emulator, a stub made by
  \<^verbatim>\<open>register_bulk\<close>, or the text an external pack gives.
\<close>

datatype cmd_value = Builtin string | Stub string | PackText string

definition ALIASES :: "(string \<times> string) list" where
  "ALIASES =
     [(''ls'', ''list''), (''ll'', ''list''), (''quit'', ''exit''), (''q'', ''exit''),
      (''show commands report'', ''show commands status'')]"

definition BUILTINS :: "(string \<times> cmd_value) list" where
  "BUILTINS =
     [(''list'', Builtin ''h_list''),
      (''create_file'', Builtin ''h_create_file''),
      (''copy_file'', Builtin ''h_copy_file''),
      (''move_file'', Builtin ''h_move_file''),
      (''compare_files'', Builtin ''h_compare_files''),
      (''delete_file'', Builtin ''h_delete_file''),
      (''create_dir'', Builtin ''h_create_dir''),
      (''copy_dir'', Builtin ''h_copy_dir''),
      (''move_dir'', Builtin ''h_move_dir''),
      (''delete_dir'', Builtin ''h_delete_dir''),
      (''rename'', Builtin ''h_rename''),
      (''display_file'', Builtin ''h_display_file''),
      (''display_file_status'', Builtin ''h_display_file_status''),
      (''display_dir_status'', Builtin ''h_display_dir_status''),
      (''display_disk_usage'', Builtin ''h_display_disk_usage''),
      (''dump_file'', Builtin ''h_dump_file''),
      (''list_users'', Builtin ''h_list_users''),
      (''list_library_paths'', Builtin ''h_list_library_paths''),
      (''add_library_path'', Builtin ''h_add_library_path''),
      (''delete_library_path'', Builtin ''h_delete_library_path''),
      (''set_language'', Builtin ''h_set_language''),
      (''set_time_zone'', Builtin ''h_set_time_zone''),
      (''set_line_wrap_width'', Builtin ''h_set_line_wrap_width''),
      (''profile'', Builtin ''h_profile''),
      (''add_profile'', Builtin ''h_add_profile''),
      (''compare_dirs'', Builtin ''h_compare_dirs''),
      (''clone_dir'', Builtin ''h_clone_dir''),
      (''clone_file'', Builtin ''h_clone_file''),
      (''display_current_dir'', Builtin ''h_display_current_dir''),
      (''display_current_module'', Builtin ''h_display_current_module''),
      (''display_date_time'', Builtin ''h_display_date_time''),
      (''display_line'', Builtin ''h_display_line''),
      (''change_current_dir'', Builtin ''h_change_current_dir''),
      (''display_device_info'', Builtin ''h_display_device_info''),
      (''display_disk_info'', Builtin ''h_display_disk_info''),
      (''display_system_usage'', Builtin ''h_display_system_usage''),
      (''display_error'', Builtin ''h_display_error''),
      (''display_notices'', Builtin ''h_display_notices''),
      (''display_terminal_parameters'', Builtin ''h_display_terminal_parameters''),
      (''locate_files'', Builtin ''h_locate_files''),
      (''locate_large_files'', Builtin ''h_locate_large_files''),
      (''locate_large_dirs'', Builtin ''h_locate_large_dirs''),
      (''batch'', Builtin ''h_batch''),
      (''display_batch_status'', Builtin ''h_display_batch_status''),
      (''list_batch_requests'', Builtin ''h_list_batch_requests''),
      (''cancel_batch_requests'', Builtin ''h_cancel_batch_requests''),
      (''update_batch_requests'', Builtin ''h_update_batch_requests''),
      (''show commands status'', Builtin ''h_show_commands_status''),
      (''show commands report'', Builtin ''h_show_commands_status'')]"

definition emulator_commands :: "string list" where
  \<comment> \<open>the names \<^verbatim>\<open>VOShell.__init__\<close> allows besides those of the text list\<close>
  "emulator_commands =
     [''list'',
      ''create_file'', ''copy_file'', ''move_file'', ''compare_files'', ''delete_file'',
      ''create_dir'', ''copy_dir'', ''move_dir'', ''delete_dir'', ''rename'',
      ''display_file'', ''display_file_status'', ''display_dir_status'',
      ''display_disk_usage'', ''dump_file'',
      ''list_users'', ''list_library_paths'', ''add_library_path'',
      ''delete_library_path'', ''set_language'', ''set_time_zone'',
      ''set_line_wrap_width'', ''profile'', ''add_profile'',
      ''compare_dirs'', ''clone_dir'', ''clone_file'',
      ''display_current_dir'', ''display_current_module'', ''display_date_time'',
      ''display_line'', ''change_current_dir'', ''display_device_info'',
      ''display_disk_info'', ''display_system_usage'', ''display_error'',
      ''display_notices'', ''display_terminal_parameters'',
      ''locate_files'', ''locate_large_dirs'', ''locate_large_files'',
      ''batch'', ''display_batch_status'', ''list_batch_requests'', ''cancel_batch_requests'',
      ''update_batch_requests'',
      ''show commands status'',
      ''show commands report'']"

definition load_txt_commands :: "string list \<Rightarrow> string list" where
  \<comment> \<open>the argument is the lines of \<^verbatim>\<open>vos_commands.txt\<close> (none when the file is absent)\<close>
  "load_txt_commands lines =
     filter (\<lambda>ln. ln \<noteq> [] \<and> \<not> startswith ln ''#'') (map py_strip lines)"

fun register_bulk :: "(string \<times> cmd_value) list \<Rightarrow> string list \<Rightarrow> (string \<times> cmd_value) list" where
  \<comment> \<open>the registry part of \<^verbatim>\<open>register_bulk\<close>; the stub and help bookkeeping is left out\<close>
  "register_bulk commands_dict [] = commands_dict"
| "register_bulk commands_dict (name # names) =
     (let key = py_strip name in
      if key \<noteq> [] \<and> key \<notin> set (map fst commands_dict)
      then register_bulk (commands_dict @ [(key, Stub key)]) names
      else register_bulk commands_dict names)"

record shell =
  commands :: "(string \<times> cmd_value) list"
  aliases :: "(string \<times> string) list"
  commands_ci :: "(string \<times> (string \<times> cmd_value)) list"
  index :: "string list"

definition dict_of :: "('k \<times> 'v) list \<Rightarrow> ('k \<times> 'v) list" where
  \<comment> \<open>a dictionary built from pairs in order: a repeated key keeps its first position and
     takes the last value\<close>
  "dict_of kvs = fold (\<lambda>(k, v) d. AList.update k v d) kvs []"

definition VOShell_init :: "(string \<times> string) list \<Rightarrow> string list \<Rightarrow> shell" where
  \<comment> \<open>\<^verbatim>\<open>VOShell.__init__\<close>: the first argument is what \<^verbatim>\<open>load_yaml_pack\<close> returns, the
     second the lines of the text list\<close>
  "VOShell_init pack lines =
     (let cmds = BUILTINS;
          cmds = fold (\<lambda>(k, v) d. AList.update k (PackText v) d) pack cmds;
          txt = load_txt_commands lines;
          cmds = register_bulk cmds txt;
          allowed_commands = txt @ emulator_commands;
          cmds = filter (\<lambda>(k, v). k \<in> set allowed_commands) cmds;
          cmds = filter (\<lambda>(k, v). k \<notin> set (map fst ALIASES)) cmds
      in \<lparr>commands = cmds,
          aliases = dict_of (map (\<lambda>(k, v). (py_lower k, v)) ALIASES),
          commands_ci = dict_of (map (\<lambda>(k, v). (py_lower k, (k, v))) cmds),
          index = sort (map fst cmds)\<rparr>)"

definition split_cmd_args ::
  "string \<Rightarrow> (string \<times> (string \<times> cmd_value)) list \<Rightarrow> string \<times> string list" where
  "split_cmd_args line cmds_ci =
     (case py_words (py_strip line) of
        [] \<Rightarrow> ([], [])
      | [p0] \<Rightarrow> (p0, [])
      | p0 # p1 # rest \<Rightarrow>
          (if py_lower (p0 @ '' '' @ p1) \<in> set (map fst cmds_ci)
           then (p0 @ '' '' @ p1, rest)
           else (p0, p1 # rest)))"

datatype resolved = Val cmd_value | Msg string | NoValue

definition alias_order :: "(string \<times> string) list \<Rightarrow> string list" where
  \<comment> \<open>\<^verbatim>\<open>sorted(self.aliases.keys(), key=len, reverse=True)\<close>: longest first, ties in
     dictionary order\<close>
  "alias_order als = sort_key (\<lambda>a. - int (length a)) (map fst als)"

definition expand_alias :: "(string \<times> string) list \<Rightarrow> string \<Rightarrow> string" where
  \<comment> \<open>the alias loop of \<^verbatim>\<open>_resolve\<close>, on the stripped line; the first argument is
     \<^verbatim>\<open>self.aliases\<close>\<close>
  "expand_alias als line =
     (case find (\<lambda>a. py_lower line = a \<or> startswith (py_lower line) (a @ '' ''))
             (alias_order als) of
        None \<Rightarrow> line
      | Some a \<Rightarrow>
          (case map_of als a of
             None \<Rightarrow> line
           | Some target \<Rightarrow> py_strip (target @ drop (length a) line)))"

definition candidates ::
  "(string \<Rightarrow> string \<Rightarrow> bool) \<Rightarrow> (string \<times> cmd_value) list \<Rightarrow> string \<Rightarrow> string list" where
  \<comment> \<open>the prefix or glob search of \<^verbatim>\<open>_resolve\<close>, in the order of \<^verbatim>\<open>self.commands\<close>\<close>
  "candidates fnmatch cmds head_lc =
     filter (\<lambda>k. startswith (py_lower k) head_lc \<or> fnmatch (py_lower k) head_lc) (map fst cmds)"

definition nl :: string where
  "nl = [CHR 0x0A]"

definition ambiguous_message :: "string list \<Rightarrow> string" where
  "ambiguous_message cands =
     ''Ambiguous command. Did you mean:'' @ nl @ ''  - '' @ py_join (nl @ ''  - '') (take 20 cands)
       @ (if length cands > 20 then nl @ ''  ... (more)'' else [])"

text \<open>
  \<^verbatim>\<open>fnmatch.fnmatch\<close> and \<^verbatim>\<open>difflib.get_close_matches\<close> (with \<^verbatim>\<open>n=5, cutoff=0.6\<close>)
  belong to the Python library; the resolver takes them as parameters.
\<close>

definition resolve ::
  "(string \<Rightarrow> string \<Rightarrow> bool) \<Rightarrow> (string \<Rightarrow> string list \<Rightarrow> string list) \<Rightarrow>
   shell \<Rightarrow> string \<Rightarrow> string option \<times> resolved \<times> string list" where
  "resolve fnmatch get_close_matches sh line0 =
     (let line = py_strip line0 in
      if line = [] then (None, NoValue, [])
      else
        let line = expand_alias (aliases sh) line;
            line_lc = py_lower line
        in case map_of (commands_ci sh) line_lc of
             Some (orig, val) \<Rightarrow> (Some orig, Val val, [])
           | None \<Rightarrow>
               let (head, args) = split_cmd_args line (commands_ci sh) in
               if head = [] then (None, NoValue, [])
               else
                 let head_lc = py_lower head in
                 case map_of (commands_ci sh) head_lc of
                   Some (orig, val) \<Rightarrow> (Some orig, Val val, args)
                 | None \<Rightarrow>
                     let cands = candidates fnmatch (commands sh) head_lc in
                     (case cands of
                        [key] \<Rightarrow>
                          (case map_of (commands sh) key of
                             Some val \<Rightarrow> (Some key, Val val, args)
                           | None \<Rightarrow> (None, NoValue, []))
                      | _ # _ # _ \<Rightarrow> (None, Msg (ambiguous_message cands), [])
                      | [] \<Rightarrow>
                          let sug = get_close_matches head (index sh) in
                          if sug \<noteq> []
                          then (None, Msg (''Unknown command. Closest matches:'' @ nl @ ''  - ''
                                           @ py_join (nl @ ''  - '') sug), [])
                          else (None, NoValue, [])))"

fun glob :: "string \<Rightarrow> string \<Rightarrow> bool" where
  \<comment> \<open>a matcher for patterns made of literal characters, \<^verbatim>\<open>*\<close> and \<^verbatim>\<open>?\<close>, as
     \<^verbatim>\<open>fnmatch.fnmatch\<close> reads them on a POSIX host; used in the examples\<close>
  "glob [] [] = True"
| "glob (c # cs) [] = False"
| "glob name (p # ps) =
     (if p = CHR ''*'' then
        (glob name ps \<or> (case name of [] \<Rightarrow> False | _ # cs \<Rightarrow> glob cs (p # ps)))
      else (case name of
              [] \<Rightarrow> False
            | c # cs \<Rightarrow> (p = CHR ''?'' \<or> p = c) \<and> glob cs ps))"

definition no_close_matches :: "string \<Rightarrow> string list \<Rightarrow> string list" where
  \<comment> \<open>stands for \<^verbatim>\<open>difflib.get_close_matches\<close> in examples that do not reach it\<close>
  "no_close_matches word possibilities = []"

definition alias_applies :: "(string \<times> string) list \<Rightarrow> string \<Rightarrow> bool" where
  \<comment> \<open>some alias pattern equals the lower-cased line or is a prefix of it followed by a space\<close>
  "alias_applies als line =
     list_ex (\<lambda>a. py_lower line = a \<or> startswith (py_lower line) (a @ '' '')) (map fst als)"

definition display_d_candidates :: "string list" where
  \<comment> \<open>the built-in commands that start with \<^verbatim>\<open>display_d\<close>, in registration order\<close>
  "display_d_candidates = [''display_dir_status'', ''display_disk_usage'', ''display_date_time'',
      ''display_device_info'', ''display_disk_info'']"

section \<open>Decimal numerals\<close>

definition digit_char :: "nat \<Rightarrow> char" where
  "digit_char d = char_of (48 + d)"

function str_nat :: "nat \<Rightarrow> string" where
  \<comment> \<open>\<^verbatim>\<open>str(n)\<close> for a natural number\<close>
  "str_nat n = (if n < 10 then [digit_char n] else str_nat (n div 10) @ [digit_char (n mod 10)])"
  by pat_completeness auto
termination
  by (relation "measure id") auto


definition exc_text :: "py_error \<Rightarrow> string" where
  \<comment> \<open>\<^verbatim>\<open>str(e)\<close>; the wording of Python's messages depends on the host, the model writes the
     class of the exception\<close>
  "exc_text e = (case e of IndexError \<Rightarrow> ''IndexError'' | AttributeError \<Rightarrow> ''AttributeError''
                 | OSError \<Rightarrow> ''OSError'')"

section \<open>Job records and the file system\<close>

text \<open>
  What \<^verbatim>\<open>json.load\<close> returns. Floating-point numbers are not modelled; the
  dictionary of an object lists each key once.
\<close>

datatype json = JNull | JBool bool | JInt int | JStr string | JArr "json list"
  | JObj "(string \<times> json) list"

text \<open>
  The file system is a table from path strings to nodes. A file carries what opening and
  parsing it gives (\<open>None\<close> when either fails) and whether the host refuses to remove or
  rewrite it. Paths are compared as strings: the model covers names without \<^verbatim>\<open>.\<close> and
  \<^verbatim>\<open>..\<close> components.
\<close>

datatype node = Dir | File "json option" bool

type_synonym fs = "(string \<times> node) list"

definition fs_isdir :: "fs \<Rightarrow> string \<Rightarrow> bool" where
  \<comment> \<open>\<^verbatim>\<open>os.path.isdir\<close>\<close>
  "fs_isdir fs p = (map_of fs p = Some Dir)"

definition fs_exists :: "fs \<Rightarrow> string \<Rightarrow> bool" where
  \<comment> \<open>\<^verbatim>\<open>os.path.exists\<close>\<close>
  "fs_exists fs p = (map_of fs p \<noteq> None)"

definition child_name :: "string \<Rightarrow> string \<Rightarrow> string option" where
  \<comment> \<open>the name under which the directory \<open>d\<close> lists the path \<open>p\<close>, if it does\<close>
  "child_name d p =
     (let name = basename p in
      if name \<noteq> [] \<and> os_path_join d [name] = p then Some name else None)"

definition listdir :: "fs \<Rightarrow> string \<Rightarrow> py_error + string list" where
  \<comment> \<open>\<^verbatim>\<open>os.listdir\<close>, in the order of the table\<close>
  "listdir fs d =
     (if fs_isdir fs d then Inr (List.map_filter (child_name d) (map fst fs)) else Inl OSError)"

definition read_json :: "fs \<Rightarrow> string \<Rightarrow> py_error + json" where
  \<comment> \<open>\<^verbatim>\<open>open(path)\<close> followed by \<^verbatim>\<open>json.load\<close>\<close>
  "read_json fs p = (case map_of fs p of Some (File (Some j) l) \<Rightarrow> Inr j | _ \<Rightarrow> Inl OSError)"

definition fs_remove :: "fs \<Rightarrow> string \<Rightarrow> py_error + fs" where
  \<comment> \<open>\<^verbatim>\<open>os.remove\<close>\<close>
  "fs_remove fs p =
     (case map_of fs p of
        Some (File c l) \<Rightarrow> if l then Inl OSError else Inr (AList.delete p fs)
      | _ \<Rightarrow> Inl OSError)"



definition path_prefixes :: "string \<Rightarrow> string list" where
  \<comment> \<open>the path and its ancestors, shortest first\<close>
  "path_prefixes p =
     filter (\<lambda>q. q \<noteq> [] \<and> last q \<noteq> CHR ''/'' \<and>
                 (length q = length p \<or> p ! length q = CHR ''/''))
       (map (\<lambda>n. take n p) [1..<Suc (length p)])"

fun makedirs_list :: "fs \<Rightarrow> string list \<Rightarrow> py_error + fs" where
  "makedirs_list fs [] = Inr fs"
| "makedirs_list fs (d # ds) =
     (case map_of fs d of
        Some Dir \<Rightarrow> makedirs_list fs ds
      | Some (File c l) \<Rightarrow> Inl OSError
      | None \<Rightarrow> makedirs_list (fs @ [(d, Dir)]) ds)"

definition makedirs :: "fs \<Rightarrow> string \<Rightarrow> py_error + fs" where
  \<comment> \<open>\<^verbatim>\<open>os.makedirs(path, exist_ok=True)\<close>\<close>
  "makedirs fs p = makedirs_list fs (path_prefixes p)"

definition dict_get :: "json \<Rightarrow> string \<Rightarrow> json \<Rightarrow> py_error + json" where
  \<comment> \<open>\<^verbatim>\<open>job.get(key, default)\<close>; only a dictionary has \<^verbatim>\<open>get\<close>\<close>
  "dict_get job key dflt =
     (case job of
        JObj kvs \<Rightarrow> Inr (case map_of kvs key of Some v \<Rightarrow> v | None \<Rightarrow> dflt)
      | _ \<Rightarrow> Inl AttributeError)"

definition lower_json :: "json \<Rightarrow> py_error + string" where
  \<comment> \<open>\<^verbatim>\<open>p_name.lower()\<close>; only a string has \<^verbatim>\<open>lower\<close>\<close>
  "lower_json v = (case v of JStr s \<Rightarrow> Inr (py_lower s) | _ \<Rightarrow> Inl AttributeError)"

definition base_name :: "string \<Rightarrow> string" where
  \<comment> \<open>\<^verbatim>\<open>fname[:-4]\<close>\<close>
  "base_name fname = take (length fname - 4) fname"

section \<open>Batch: listing\<close>

text \<open>
  \<^verbatim>\<open>table\<close> turns headers and rows into text; the model keeps the headers and the rows.
\<close>

datatype reply = Text string | Table "string list" "json list list"

definition status_row :: "fs \<Rightarrow> string \<Rightarrow> string \<Rightarrow> string \<Rightarrow> json list" where
  \<comment> \<open>the row of one job file in \<^verbatim>\<open>h_display_batch_status\<close>\<close>
  "status_row fs queue_name job_file fname =
     (let unreadable = [JStr queue_name, JStr (base_name fname), JStr [], JStr [], JStr ''unreadable'']
      in case read_json fs job_file of
           Inl e \<Rightarrow> unreadable
         | Inr job \<Rightarrow>
             (case dict_get job ''process_name'' (JStr (base_name fname)) of
                Inl e \<Rightarrow> unreadable
              | Inr p_name \<Rightarrow>
                  (case dict_get job ''queue_priority'' (JStr []) of
                     Inl e \<Rightarrow> unreadable
                   | Inr qpri \<Rightarrow>
                       (case dict_get job ''process_priority'' (JStr []) of
                          Inl e \<Rightarrow> unreadable
                        | Inr ppri \<Rightarrow> [JStr queue_name, p_name, qpri, ppri, JStr ''pending'']))))"

definition request_row :: "fs \<Rightarrow> string \<Rightarrow> string \<Rightarrow> string \<Rightarrow> json list" where
  \<comment> \<open>the row of one job file in \<^verbatim>\<open>h_list_batch_requests\<close>\<close>
  "request_row fs queue_name job_file fname =
     (let unreadable = [JStr queue_name, JStr (base_name fname), JStr []]
      in case read_json fs job_file of
           Inl e \<Rightarrow> unreadable
         | Inr job \<Rightarrow>
             (case dict_get job ''process_name'' (JStr (base_name fname)) of
                Inl e \<Rightarrow> unreadable
              | Inr p_name \<Rightarrow>
                  (case dict_get job ''queue_priority'' (JStr []) of
                     Inl e \<Rightarrow> unreadable
                   | Inr qpri \<Rightarrow> [JStr queue_name, p_name, qpri])))"

fun rows_of_files ::
  "(string \<Rightarrow> string \<Rightarrow> string \<Rightarrow> json list) \<Rightarrow> string \<Rightarrow> string \<Rightarrow> string list \<Rightarrow> json list list" where
  \<comment> \<open>the loop over the sorted names of one queue directory\<close>
  "rows_of_files row queue_name queue_dir [] = []"
| "rows_of_files row queue_name queue_dir (fname # fnames) =
     (if \<not> endswith fname ''.job'' then rows_of_files row queue_name queue_dir fnames
      else row queue_name (os_path_join queue_dir [fname]) fname
             # rows_of_files row queue_name queue_dir fnames)"

fun rows_of_queues ::
  "(string \<Rightarrow> string \<Rightarrow> string \<Rightarrow> json list) \<Rightarrow> fs \<Rightarrow> string \<Rightarrow> string option \<Rightarrow> string list
     \<Rightarrow> py_error + json list list" where
  \<comment> \<open>the loop over the sorted queue names\<close>
  "rows_of_queues row fs batch_root queue_filter [] = Inr []"
| "rows_of_queues row fs batch_root queue_filter (queue_name # queue_names) =
     (if (case queue_filter of None \<Rightarrow> False | Some f \<Rightarrow> f \<noteq> [] \<and> queue_name \<noteq> f)
      then rows_of_queues row fs batch_root queue_filter queue_names
      else
        let queue_dir = os_path_join batch_root [queue_name] in
        if \<not> fs_isdir fs queue_dir then rows_of_queues row fs batch_root queue_filter queue_names
        else
          (case listdir fs queue_dir of
             Inl e \<Rightarrow> Inl e
           | Inr fnames \<Rightarrow>
               (case rows_of_queues row fs batch_root queue_filter queue_names of
                  Inl e \<Rightarrow> Inl e
                | Inr rows \<Rightarrow> Inr (rows_of_files row queue_name queue_dir (sort fnames) @ rows))))"

definition batch_listing ::
  "string \<Rightarrow> string list \<Rightarrow> (string \<Rightarrow> string \<Rightarrow> string \<Rightarrow> json list) \<Rightarrow> string list \<Rightarrow> globals \<Rightarrow> fs
     \<Rightarrow> reply \<times> globals" where
  \<comment> \<open>the body the two listing handlers share, up to their name, headers and row\<close>
  "batch_listing name headers row args g fs =
     (let queue_filter = (case args of [] \<Rightarrow> None | a # _ \<Rightarrow> Some a) in
      case listdir fs (BATCH_ROOT g) of
        Inl e \<Rightarrow> (let (s, g') = err (name @ '': '' @ exc_text e) g in (Text s, g'))
      | Inr queue_names \<Rightarrow>
          (case rows_of_queues row fs (BATCH_ROOT g) queue_filter (sort queue_names) of
             Inl e \<Rightarrow> (let (s, g') = err (name @ '': '' @ exc_text e) g in (Text s, g'))
           | Inr rows \<Rightarrow>
               if rows = [] then (Text ''(no batch requests)'', g)
               else (Table headers rows, g)))"

definition h_display_batch_status :: "string list \<Rightarrow> globals \<Rightarrow> fs \<Rightarrow> reply \<times> globals" where
  "h_display_batch_status args g fs =
     batch_listing ''display_batch_status''
       [''Queue'', ''Process'', ''QueuePri'', ''ProcPri'', ''Status''] (status_row fs) args g fs"

definition h_list_batch_requests :: "string list \<Rightarrow> globals \<Rightarrow> fs \<Rightarrow> reply \<times> globals" where
  "h_list_batch_requests args g fs =
     batch_listing ''list_batch_requests'' [''Queue'', ''Process'', ''QueuePri''] (request_row fs)
       args g fs"

definition fs_example :: fs where
  "fs_example =
     [(''/w/vos_state/vos_internals/batches'', Dir),
      (''/w/vos_state/vos_internals/batches/normal'', Dir),
      (''/w/vos_state/vos_internals/batches/normal/report.job'',
         File (Some (JObj [(''command_line'', JStr ''report''), (''process_name'', JStr ''report''),
                           (''queue_name'', JStr ''normal''), (''process_priority'', JNull),
                           (''queue_priority'', JInt 4)])) False),
      (''/w/vos_state/vos_internals/batches/normal/broken.job'', File None False),
      (''/w/vos_state/vos_internals/batches/notes.txt'', File None False),
      (''/w/vos_state/vos_internals/batches/nightly'', Dir),
      (''/w/vos_state/vos_internals/batches/nightly/sales.job'',
         File (Some (JObj [(''command_line'', JStr ''sales''), (''process_name'', JStr ''sales''),
                           (''queue_name'', JStr ''nightly''), (''process_priority'', JInt 2),
                           (''queue_priority'', JInt 4)])) False)]"

definition queue_listed :: "fs \<Rightarrow> string \<Rightarrow> string list \<Rightarrow> string \<Rightarrow> bool" where
  \<comment> \<open>the queue passes the filter given as first argument, if any, and is a directory\<close>
  "queue_listed fs batch_root args queue_name =
     ((case args of [] \<Rightarrow> True | f # _ \<Rightarrow> f = [] \<or> queue_name = f) \<and>
      fs_isdir fs (os_path_join batch_root [queue_name]))"

definition listed_jobs :: "fs \<Rightarrow> string \<Rightarrow> string list \<Rightarrow> string list \<Rightarrow> (string \<times> string) list" where
  \<comment> \<open>the job files of the listed queues among the given ones: queue name and file name\<close>
  "listed_jobs fs batch_root args queue_names =
     concat (map (\<lambda>q. case listdir fs (os_path_join batch_root [q]) of
                        Inl e \<Rightarrow> []
                      | Inr fnames \<Rightarrow> map (Pair q) (filter (\<lambda>f. endswith f ''.job'') (sort fnames)))
               (filter (queue_listed fs batch_root args) queue_names))"

definition job_path :: "string \<Rightarrow> string \<Rightarrow> string \<Rightarrow> string" where
  "job_path batch_root queue_name fname =
     os_path_join (os_path_join batch_root [queue_name]) [fname]"

section \<open>Batch: cancelling and updating\<close>

fun match_any :: "(string \<Rightarrow> string \<Rightarrow> bool) \<Rightarrow> json \<Rightarrow> string list \<Rightarrow> py_error + bool" where
  \<comment> \<open>the loop \<^verbatim>\<open>for pat in patterns: if fnmatch.fnmatch(p_name.lower(), pat.lower())\<close>, up
     to its \<^verbatim>\<open>break\<close>\<close>
  "match_any fnmatch p_name [] = Inr False"
| "match_any fnmatch p_name (pat # pats) =
     (case lower_json p_name of
        Inl e \<Rightarrow> Inl e
      | Inr name \<Rightarrow>
          if fnmatch name (py_lower pat) then Inr True else match_any fnmatch p_name pats)"

definition cancel_job ::
  "(string \<Rightarrow> string \<Rightarrow> bool) \<Rightarrow> string list \<Rightarrow> fs \<Rightarrow> string \<Rightarrow> string \<Rightarrow> py_error + fs \<times> nat" where
  \<comment> \<open>one \<^verbatim>\<open>.job\<close> file in \<^verbatim>\<open>h_cancel_batch_requests\<close>: the file system afterwards and
     what is added to \<^verbatim>\<open>cancelled\<close>\<close>
  "cancel_job fnmatch patterns fs job_file fname =
     (let p_name =
            (case read_json fs job_file of
               Inl e \<Rightarrow> JStr (base_name fname)
             | Inr job \<Rightarrow>
                 (case dict_get job ''process_name'' (JStr (base_name fname)) of
                    Inl e \<Rightarrow> JStr (base_name fname)
                  | Inr v \<Rightarrow> v))
      in case match_any fnmatch p_name patterns of
           Inl e \<Rightarrow> Inl e
         | Inr False \<Rightarrow> Inr (fs, 0)
         | Inr True \<Rightarrow>
             (case fs_remove fs job_file of
                Inl e \<Rightarrow> Inr (fs, 0)
              | Inr fs' \<Rightarrow> Inr (fs', 1)))"

text \<open>
  The loops of a handler stop at the first exception that its outer \<^verbatim>\<open>try\<close> catches;
  what was done to the file system before stays done.
\<close>

fun job_loop ::
  "(fs \<Rightarrow> string \<Rightarrow> string \<Rightarrow> py_error + fs \<times> nat) \<Rightarrow> fs \<Rightarrow> string \<Rightarrow> nat \<Rightarrow> string list
     \<Rightarrow> py_error \<times> fs + fs \<times> nat" where
  \<comment> \<open>the loop over the names of one queue directory, with the running count\<close>
  "job_loop step fs queue_dir count [] = Inr (fs, count)"
| "job_loop step fs queue_dir count (fname # fnames) =
     (if \<not> endswith fname ''.job'' then job_loop step fs queue_dir count fnames
      else
        (case step fs (os_path_join queue_dir [fname]) fname of
           Inl e \<Rightarrow> Inl (e, fs)
         | Inr (fs', k) \<Rightarrow> job_loop step fs' queue_dir (count + k) fnames))"

fun queue_loop ::
  "(fs \<Rightarrow> string \<Rightarrow> string \<Rightarrow> py_error + fs \<times> nat) \<Rightarrow> string \<Rightarrow> fs \<Rightarrow> nat \<Rightarrow> string list
     \<Rightarrow> py_error \<times> fs + fs \<times> nat" where
  \<comment> \<open>the loop over the names that \<^verbatim>\<open>os.listdir(BATCH_ROOT)\<close> gave\<close>
  "queue_loop step batch_root fs count [] = Inr (fs, count)"
| "queue_loop step batch_root fs count (queue_name # queue_names) =
     (let queue_dir = os_path_join batch_root [queue_name] in
      if \<not> fs_isdir fs queue_dir then queue_loop step batch_root fs count queue_names
      else
        (case listdir fs queue_dir of
           Inl e \<Rightarrow> Inl (e, fs)
         | Inr fnames \<Rightarrow>
             (case job_loop step fs queue_dir count fnames of
                Inl x \<Rightarrow> Inl x
              | Inr (fs', count') \<Rightarrow> queue_loop step batch_root fs' count' queue_names)))"

definition h_cancel_batch_requests ::
  "(string \<Rightarrow> string \<Rightarrow> bool) \<Rightarrow> string list \<Rightarrow> globals \<Rightarrow> fs \<Rightarrow> string \<times> globals \<times> fs" where
  "h_cancel_batch_requests fnmatch args g fs =
     (if args = [] then
        (let (s, g') = err ''usage: cancel_batch_requests <process_name(s)>'' g in (s, g', fs))
      else
        (case listdir fs (BATCH_ROOT g) of
           Inl e \<Rightarrow>
             (let (s, g') = err (''cancel_batch_requests: '' @ exc_text e) g in (s, g', fs))
         | Inr queue_names \<Rightarrow>
             (case queue_loop (cancel_job fnmatch args) (BATCH_ROOT g) fs 0 queue_names of
                Inl (e, fs') \<Rightarrow>
                  (let (s, g') = err (''cancel_batch_requests: '' @ exc_text e) g in (s, g', fs'))
              | Inr (fs', cancelled) \<Rightarrow>
                  (ok (''cancelled '' @ str_nat cancelled @ '' batch request(s)''), g, fs'))))"















definition fs_locked_example :: fs where
  \<comment> \<open>one unreadable job file that the host refuses to remove\<close>
  "fs_locked_example =
     [(''/w/vos_state/vos_internals/batches'', Dir),
      (''/w/vos_state/vos_internals/batches/normal'', Dir),
      (''/w/vos_state/vos_internals/batches/normal/broken.job'', File None True)]"

definition fs_cancelled_example :: fs where
  \<comment> \<open>\<open>fs_example\<close> without \<^verbatim>\<open>broken.job\<close> and \<^verbatim>\<open>sales.job\<close>\<close>
  "fs_cancelled_example =
     [(''/w/vos_state/vos_internals/batches'', Dir),
      (''/w/vos_state/vos_internals/batches/normal'', Dir),
      (''/w/vos_state/vos_internals/batches/normal/report.job'',
         File (Some (JObj [(''command_line'', JStr ''report''), (''process_name'', JStr ''report''),
                           (''queue_name'', JStr ''normal''), (''process_priority'', JNull),
                           (''queue_priority'', JInt 4)])) False),
      (''/w/vos_state/vos_internals/batches/notes.txt'', File None False),
      (''/w/vos_state/vos_internals/batches/nightly'', Dir)]"

definition matches_any :: "(string \<Rightarrow> string \<Rightarrow> bool) \<Rightarrow> string \<Rightarrow> string list \<Rightarrow> bool" where
  \<comment> \<open>the name, lower-cased, matches one of the patterns, lower-cased\<close>
  "matches_any fnmatch name patterns =
     list_ex (\<lambda>pat. fnmatch (py_lower name) (py_lower pat)) patterns"

definition removed :: "fs \<Rightarrow> fs \<Rightarrow> string set" where
  "removed fs fs' = {p. fs_exists fs p \<and> \<not> fs_exists fs' p}"

text \<open>Two facts that every round of the cancel loops keeps.\<close>

definition cancel_inv :: "fs \<Rightarrow> fs \<Rightarrow> nat \<Rightarrow> bool" where
  "cancel_inv fs0 fs n =
     ((\<forall>p. map_of fs p = map_of fs0 p \<or> map_of fs p = None) \<and> n = card (removed fs0 fs))"

text \<open>
  The fate of one unreadable job file \<open>P\<close>, listed as \<open>fname\<close> in the directory \<open>qd\<close>: either
  it is as it was, or its round has come (\<open>done\<close>).
\<close>

definition target_inv ::
  "(string \<Rightarrow> string \<Rightarrow> bool) \<Rightarrow> string list \<Rightarrow> string \<Rightarrow> string \<Rightarrow> bool \<Rightarrow> bool \<Rightarrow> fs \<Rightarrow> bool" where
  "target_inv fnmatch patterns P fname l done fs =
     (if done \<and> matches_any fnmatch (base_name fname) patterns \<and> \<not> l then map_of fs P = None
      else map_of fs P = Some (File None l))"

















section \<open>Facts about the string helpers\<close>

lemma py_split_not_Nil: "py_split c s \<noteq> []"
  by (induction s) (auto split: list.splits)

lemma py_split_no_sep: "w \<in> set (py_split c s) \<Longrightarrow> c \<notin> set w"
  by (induction s arbitrary: w) (auto split: if_splits list.splits)

lemma py_join_Cons_Cons: "py_join sep ((x # w) # ws) = x # py_join sep (w # ws)"
  by (cases ws) auto

lemma py_join_Cons_concat: "py_join [c] (w # ws) = w @ concat (map ((#) c) ws)"
  by (induction ws arbitrary: w) auto

lemma endswith_single: "endswith p [c] = (p \<noteq> [] \<and> last p = c)"
proof (cases p rule: rev_cases)
  case Nil
  then show ?thesis by (simp add: endswith_def)
next
  case (snoc ys y)
  then show ?thesis by (auto simp: endswith_def)
qed

lemma startswith_single: "startswith p [c] = (p \<noteq> [] \<and> hd p = c)"
  by (cases p) (auto simp: startswith_def)

lemma py_join_split_map:
  "py_join [b] (py_split a s) = map (\<lambda>x. if x = a then b else x) s"
proof (induction s)
  case Nil
  show ?case by simp
next
  case (Cons x s)
  obtain w ws where ws: "py_split a s = w # ws"
    using py_split_not_Nil[of a s] by (cases "py_split a s") auto
  show ?case
  proof (cases "x = a")
    case True
    with Cons ws show ?thesis by simp
  next
    case False
    with Cons ws show ?thesis by (simp add: py_join_Cons_Cons del: py_join.simps)
  qed
qed

lemma py_split_map_replace:
  "b \<notin> set s \<Longrightarrow> py_split b (map (\<lambda>x. if x = a then b else x) s) = py_split a s"
  by (induction s) (auto split: list.splits)

lemma strip_chars_id:
  assumes "s \<noteq> []" and "\<not> P (hd s)" and "\<not> P (last s)"
  shows "strip_chars P s = s"
proof -
  from assms have "dropWhile P s = s" by (cases s) auto
  moreover from assms have "dropWhile P (rev s) = rev s"
    by (cases "rev s") (auto simp: last_rev hd_rev dest: arg_cong[where f=hd])
  ultimately show ?thesis by (simp add: strip_chars_def)
qed

lemma foldl_join2_segments:
  "p \<noteq> [] \<Longrightarrow> last p \<noteq> CHR ''/'' \<Longrightarrow> [] \<notin> set segs \<Longrightarrow>
   (\<And>w. w \<in> set segs \<Longrightarrow> CHR ''/'' \<notin> set w) \<Longrightarrow>
   foldl join2 p segs = p @ concat (map (\<lambda>w. CHR ''/'' # w) segs)"
proof (induction segs arbitrary: p)
  case Nil
  show ?case by simp
next
  case (Cons w segs)
  from Cons.prems have w: "w \<noteq> []" "CHR ''/'' \<notin> set w" by auto
  then have hdw: "hd w \<noteq> CHR ''/''" by (cases w) auto
  have j: "join2 p w = p @ CHR ''/'' # w"
    using Cons.prems(1,2) w hdw
    by (auto simp: join2_def startswith_single endswith_single)
  from w have lw: "last w \<noteq> CHR ''/''" by (metis last_in_set)
  have "foldl join2 (p @ CHR ''/'' # w) segs =
        (p @ CHR ''/'' # w) @ concat (map (\<lambda>w. CHR ''/'' # w) segs)"
    using Cons.prems w lw by (intro Cons.IH) (auto)
  with j show ?case by simp
qed

text \<open>Bit-level equations for the character tests, for evaluation.\<close>

lemma lower_char_code [code]:
  "lower_char (Char b0 b1 b2 b3 b4 b5 b6 b7) =
     (if \<not> b7 \<and> b6 \<and> \<not> b5 \<and> (b0 \<or> b1 \<or> b2 \<or> b3 \<or> b4) \<and> \<not> (b4 \<and> b3 \<and> (b2 \<or> (b1 \<and> b0)))
      then Char b0 b1 b2 b3 b4 True b6 b7 else Char b0 b1 b2 b3 b4 b5 b6 b7)"
  by (cases b0; cases b1; cases b2; cases b3; cases b4; cases b5; cases b6; cases b7;
      simp add: lower_char_def char_of_def bit_Suc_0_iff)

lemma is_space_code [code]:
  "is_space (Char b0 b1 b2 b3 b4 b5 b6 b7) =
     (\<not> b7 \<and> \<not> b6 \<and>
      ((\<not> b5 \<and> \<not> b4 \<and> b3 \<and> (\<not> b2 \<and> (b1 \<or> b0) \<or> b2 \<and> \<not> b1)) \<or>
       (\<not> b5 \<and> b4 \<and> b3 \<and> b2) \<or>
       (b5 \<and> \<not> b4 \<and> \<not> b3 \<and> \<not> b2 \<and> \<not> b1 \<and> \<not> b0)))"
  by (cases b0; cases b1; cases b2; cases b3; cases b4; cases b5; cases b6; cases b7;
      simp add: is_space_def)

lemma is_alnum_code [code]:
  "is_alnum (Char b0 b1 b2 b3 b4 b5 b6 b7) =
     (\<not> b7 \<and>
      ((\<not> b6 \<and> b5 \<and> b4 \<and> (\<not> b3 \<or> (\<not> b2 \<and> \<not> b1))) \<or>
       (b6 \<and> (b0 \<or> b1 \<or> b2 \<or> b3 \<or> b4) \<and> \<not> (b4 \<and> b3 \<and> (b2 \<or> (b1 \<and> b0))))))"
  by (cases b0; cases b1; cases b2; cases b3; cases b4; cases b5; cases b6; cases b7;
      simp add: is_alnum_def)

section \<open>The derived process name\<close>

lemma derive_process_name_example:
  "derive_process_name (CHR 0x27 # ''Sales>Report.txt'' @ CHR 0x27 # '' -queue nightly'')
     = Inr ''Report''"
  by (simp add: derive_process_name_def py_words_def py_strip_def strip_chars_def is_space_def
      is_quote_def basename_def is_alnum_def)

text \<open>
  C1. The process name derived from a command line is: first token, quotes stripped, last
  legacy segment, host basename, extension dropped, restricted to letters, digits,
  underscore and hyphen, \<^verbatim>\<open>batch\<close> when nothing is left, cut to 32 characters. The
  docstring of \<^verbatim>\<open>_derive_process_name\<close> and the specification drop what follows the
  last dot; the code keeps what precedes the first dot. On \<^verbatim>\<open>archive.tar.gz\<close> the
  code answers \<^verbatim>\<open>archive\<close> where the stated derivation gives \<^verbatim>\<open>archivetar\<close>.
\<close>

theorem derive_process_name_first_dot:
  "derive_process_name ''archive.tar.gz'' = Inr ''archive'' \<and>
   derive_process_name_spec ''archive.tar.gz'' = ''archivetar''"
  by (simp add: derive_process_name_def derive_process_name_spec_def py_words_def py_strip_def
      strip_chars_def is_space_def is_quote_def basename_def is_alnum_def)

section \<open>The path resolver\<close>

text \<open>
  C5 (as stated). For every working directory \<open>d\<close>, resolving the legacy notation of \<open>d\<close>
  gives the sandbox root joined with \<open>d\<close>. This fails for a directory whose name contains
  the legacy separator: the working directory \<^verbatim>\<open>a>b\<close> is shown as \<^verbatim>\<open>>a>b\<close>, which
  resolves to \<^verbatim>\<open>a/b\<close> under the root.
\<close>

theorem legacy_round_trip_counterexample:
  "resolve_state_path (globals_example\<lparr>CURRENT_DIR := ''a>b''\<rparr>) (vos_path ''a>b'')
     = ''/w/vos_state/filesystem/a/b'' \<and>
   os_path_join (STATE_DIR globals_example) [''a>b''] = ''/w/vos_state/filesystem/a>b''"
  by (simp add: resolve_state_path_def vos_path_def globals_example_def py_strip_def
      strip_chars_def is_space_def isabs_def startswith_def os_path_join_def join2_def
      endswith_def)

text \<open>
  C5 (amended). For every working directory \<open>d\<close> that is empty or consists of non-empty
  slash-separated segments without the legacy separator and does not end in whitespace,
  resolving the legacy notation of \<open>d\<close> (a leading \<^verbatim>\<open>>\<close> followed by the segments
  joined by \<^verbatim>\<open>>\<close>) gives the sandbox root joined with \<open>d\<close>.
\<close>

theorem legacy_round_trip:
  assumes "relative_dir (CURRENT_DIR g)"
  shows "resolve_state_path g (vos_path (CURRENT_DIR g)) =
         (if CURRENT_DIR g = [] then STATE_DIR g else os_path_join (STATE_DIR g) [CURRENT_DIR g])"
proof (cases "CURRENT_DIR g = []")
  case True
  have "py_strip ''>'' = ''>''" by (simp add: py_strip_def strip_chars_def is_space_def)
  with True show ?thesis
    by (simp add: resolve_state_path_def vos_path_def isabs_def startswith_def os_path_join_def)
next
  case False
  define d where "d = CURRENT_DIR g"
  define r where "r = map (\<lambda>x. if x = CHR ''/'' then CHR ''>'' else x) d"
  from assms False have d: "d \<noteq> []" "CHR ''>'' \<notin> set d" "[] \<notin> set (py_split CHR ''/'' d)"
    "\<not> is_space (last d)"
    by (auto simp: relative_dir_def d_def)
  have v: "vos_path d = CHR ''>'' # r"
    using d(1) by (simp add: vos_path_def r_def py_join_split_map)
  have lastr: "last (CHR ''>'' # r) = (if last d = CHR ''/'' then CHR ''>'' else last d)"
    using d(1) by (simp add: r_def last_map)
  have "\<not> is_space (last (CHR ''>'' # r))"
    using d(4) unfolding lastr by (simp add: is_space_def)
  moreover have "\<not> is_space (hd (CHR ''>'' # r))" by (simp add: is_space_def)
  ultimately have st: "py_strip (CHR ''>'' # r) = CHR ''>'' # r"
    unfolding py_strip_def by (intro strip_chars_id) auto
  have sp: "py_split CHR ''>'' (CHR ''>'' # r) = [] # py_split CHR ''/'' d"
    using d(2) by (simp add: r_def py_split_map_replace)
  have parts: "filter (\<lambda>p. p \<noteq> []) (py_split CHR ''>'' (CHR ''>'' # r)) = py_split CHR ''/'' d"
    unfolding sp using d(3) by (auto simp: filter_id_conv)
  have res: "resolve_state_path g (vos_path d) = os_path_join (STATE_DIR g) (py_split CHR ''/'' d)"
    using parts unfolding v resolve_state_path_def st
    by (simp add: isabs_def startswith_def Let_def)
  obtain w ws where segs: "py_split CHR ''/'' d = w # ws"
    using py_split_not_Nil[of "CHR ''/''" d] by (cases "py_split CHR ''/'' d") auto
  have w: "w \<noteq> []" "CHR ''/'' \<notin> set w"
    using d(3) py_split_no_sep[of w "CHR ''/''" d] by (auto simp: segs)
  then have hdw: "hd w \<noteq> CHR ''/''" and lw: "last w \<noteq> CHR ''/''"
    by (metis hd_in_set, metis last_in_set)
  have dd: "d = w @ concat (map ((#) CHR ''/'') ws)"
    using py_join_split_map[of "CHR ''/''" "CHR ''/''" d] by (simp add: segs py_join_Cons_concat)
  define S' where "S' = (if STATE_DIR g = [] \<or> endswith (STATE_DIR g) ''/'' then STATE_DIR g
                          else STATE_DIR g @ ''/'')"
  have j1: "join2 (STATE_DIR g) w = S' @ w"
    using w(1) hdw by (auto simp: join2_def S'_def startswith_single)
  have j2: "join2 (STATE_DIR g) d = S' @ d"
    using w(1) hdw by (subst (1 2) dd) (auto simp: join2_def S'_def startswith_single)
  have "foldl join2 (S' @ w) ws = (S' @ w) @ concat (map ((#) CHR ''/'') ws)"
    using w lw d(3) py_split_no_sep[of _ "CHR ''/''" d]
    by (intro foldl_join2_segments) (auto simp: segs)
  then have "os_path_join (STATE_DIR g) (py_split CHR ''/'' d) = join2 (STATE_DIR g) d"
    unfolding j2 by (simp add: os_path_join_def segs j1 dd[symmetric])
  with res False show ?thesis by (simp add: d_def os_path_join_def)
qed

theorem legacy_round_trip_witness:
  "relative_dir (CURRENT_DIR (globals_example\<lparr>CURRENT_DIR := ''Sales/Jones''\<rparr>)) \<and>
   resolve_state_path (globals_example\<lparr>CURRENT_DIR := ''Sales/Jones''\<rparr>) (vos_path ''Sales/Jones'')
     = ''/w/vos_state/filesystem/Sales/Jones''"
proof -
  have h: "relative_dir (CURRENT_DIR (globals_example\<lparr>CURRENT_DIR := ''Sales/Jones''\<rparr>))"
    by (simp add: relative_dir_def is_space_def)
  from legacy_round_trip[OF h] h show ?thesis
    by (simp add: globals_example_def os_path_join_def join2_def startswith_def endswith_def)
qed

section \<open>Changing the working directory\<close>

text \<open>
  C2. Every directory change whose target resolves outside the sandbox root returns a
  containment error. The handler, whose comments say that it prevents changing outside of the
  state directory, compares the two absolute paths as text: the sibling directory
  \<^verbatim>\<open>filesystem2\<close> of the root \<^verbatim>\<open>filesystem\<close> is outside the root, begins with the same
  characters, and is accepted. The working directory becomes \<^verbatim>\<open>../filesystem2\<close>, and file
  names are resolved outside the root from then on.
\<close>

theorem change_current_dir_escapes:
  "\<not> inside_root (getcwd host_sibling_example) (STATE_DIR globals_example)
        (resolve_state_path globals_example ''>..>filesystem2'') \<and>
   h_change_current_dir host_sibling_example [''>..>filesystem2''] globals_example =
     (''[OK] current directory set to >..>filesystem2'',
      globals_example\<lparr>CURRENT_DIR := ''../filesystem2''\<rparr>) \<and>
   resolve_state_path (globals_example\<lparr>CURRENT_DIR := ''../filesystem2''\<rparr>) ''x'' =
     ''/w/vos_state/filesystem/../filesystem2/x''"
  by code_simp

section \<open>The registry built at start-up\<close>

lemma map_of_fold_update:
  "map_of (fold (\<lambda>(k, v) d. AList.update k v d) kvs d) k =
     (case map_of (rev kvs) k of Some v \<Rightarrow> Some v | None \<Rightarrow> map_of d k)"
proof (induction kvs arbitrary: d)
  case Nil
  show ?case by simp
next
  case (Cons kv kvs)
  obtain k' v' where kv: "kv = (k', v')" by (cases kv)
  show ?case
    by (simp add: kv Cons.IH update_conv' map_add_def split: option.splits)
qed

lemma map_of_dict_of: "map_of (dict_of kvs) k = map_of (rev kvs) k"
  by (simp add: dict_of_def map_of_fold_update split: option.splits)

lemma map_of_unique_value:
  assumes "(k, x) \<in> set kvs" and "\<And>y. (k, y) \<in> set kvs \<Longrightarrow> y = x"
  shows "map_of kvs k = Some x"
proof (cases "map_of kvs k")
  case None
  with assms(1) show ?thesis by (metis map_of_eq_None_iff image_eqI fst_conv)
next
  case (Some y)
  then have "(k, y) \<in> set kvs" by (rule map_of_SomeD)
  with assms(2) Some show ?thesis by simp
qed

lemma distinct_fold_update:
  "distinct (map fst d) \<Longrightarrow> distinct (map fst (fold (\<lambda>(k, v) d. AList.update k (f v) d) kvs d))"
  by (induction kvs arbitrary: d) (auto simp: distinct_update split: prod.splits)

lemma distinct_register_bulk:
  "distinct (map fst d) \<Longrightarrow> distinct (map fst (register_bulk d names))"
  by (induction names arbitrary: d) (auto simp: Let_def)

lemma distinct_BUILTINS: "distinct (map fst BUILTINS)"
  by code_simp

lemma distinct_commands_init: "distinct (map fst (commands (VOShell_init pack lines)))"
  by (simp add: VOShell_init_def Let_def distinct_map_filter distinct_register_bulk
      distinct_fold_update distinct_BUILTINS)

lemma is_space_lower_char: "is_space (lower_char c) = is_space c"
  by (auto simp: is_space_def lower_char_def Let_def)

lemma strip_chars_fixed:
  "strip_chars P s = s \<longleftrightarrow> s = [] \<or> (\<not> P (hd s) \<and> \<not> P (last s))"
proof (cases "s = []")
  case True
  then show ?thesis by (simp add: strip_chars_def)
next
  case False
  show ?thesis
  proof
    assume eq: "strip_chars P s = s"
    have len: "length (dropWhile P (rev (dropWhile P s))) \<le> length (dropWhile P s)"
      using length_dropWhile_le[of P "rev (dropWhile P s)"] by simp
    have "length (dropWhile P s) \<le> length s" by (rule length_dropWhile_le)
    moreover from eq have "length (dropWhile P (rev (dropWhile P s))) = length s"
      by (metis strip_chars_def length_rev)
    ultimately have l1: "length (dropWhile P s) = length s" using len by simp
    then have d1: "dropWhile P s = s"
      by (metis dropWhile_eq_drop drop_eq_Nil length_takeWhile_le takeWhile_dropWhile_id
          append_self_conv2 length_append add_cancel_right_left length_0_conv)
    with eq have "dropWhile P (rev s) = rev s"
      by (metis strip_chars_def rev_rev_ident)
    with False d1 show "s = [] \<or> (\<not> P (hd s) \<and> \<not> P (last s))"
      by (metis hd_dropWhile hd_rev rev_is_Nil_conv)
  next
    assume "s = [] \<or> (\<not> P (hd s) \<and> \<not> P (last s))"
    with False show "strip_chars P s = s" by (intro strip_chars_id) auto
  qed
qed

lemma py_strip_same_case:
  assumes "py_lower a = py_lower b" and "py_strip b = b"
  shows "py_strip a = a"
proof (cases "a = []")
  case True
  then show ?thesis by (simp add: py_strip_def strip_chars_def)
next
  case False
  with assms(1) have b: "b \<noteq> []" by (auto simp: py_lower_def)
  from assms(1) have "hd (py_lower a) = hd (py_lower b)" "last (py_lower a) = last (py_lower b)"
    by simp_all
  with False b have h: "lower_char (hd a) = lower_char (hd b)" "lower_char (last a) = lower_char (last b)"
    by (simp_all add: py_lower_def hd_map last_map)
  from assms(2) b have "\<not> is_space (hd b)" "\<not> is_space (last b)"
    by (auto simp: py_strip_def strip_chars_fixed)
  then have "\<not> is_space (hd a)" "\<not> is_space (last a)"
    using h by (metis is_space_lower_char)+
  with False show ?thesis by (simp add: py_strip_def strip_chars_fixed)
qed

lemma last_dropWhile_nonempty: "dropWhile P xs \<noteq> [] \<Longrightarrow> last (dropWhile P xs) = last xs"
  by (induction xs) (auto split: if_splits)

lemma py_strip_idem: "py_strip (py_strip s) = py_strip s"
proof (cases "py_strip s = []")
  case True
  have "py_strip [] = []" by (simp add: py_strip_def strip_chars_def)
  with True show ?thesis by simp
next
  case False
  define u where "u = dropWhile is_space s"
  define t where "t = dropWhile is_space (rev u)"
  have st: "py_strip s = rev t" by (simp add: py_strip_def strip_chars_def t_def u_def)
  from False have t: "t \<noteq> []" by (simp add: st)
  then have u: "u \<noteq> []" by (auto simp: t_def)
  from t have "\<not> is_space (hd t)" unfolding t_def by (metis hd_dropWhile)
  moreover have "last t = hd u"
    using t last_dropWhile_nonempty[of is_space "rev u"] u by (simp add: t_def last_rev)
  moreover have "\<not> is_space (hd u)" using u unfolding u_def by (metis hd_dropWhile)
  ultimately have "\<not> is_space (hd (rev t))" "\<not> is_space (last (rev t))"
    using t by (simp_all add: hd_rev last_rev)
  then have "py_strip (rev t) = rev t" by (simp add: py_strip_def strip_chars_fixed)
  then show ?thesis by (simp add: st)
qed

lemma load_txt_commands_stripped:
  "k \<in> set (load_txt_commands lines) \<Longrightarrow> py_strip k = k \<and> k \<noteq> []"
  by (auto simp: load_txt_commands_def py_strip_idem)

lemma emulator_commands_stripped:
  "list_all (\<lambda>k. \<not> is_space (hd k) \<and> \<not> is_space (last k) \<and> k \<noteq> []) emulator_commands"
  unfolding emulator_commands_def by (simp add: is_space_def)

lemma commands_init_stripped:
  assumes "k \<in> set (map fst (commands (VOShell_init pack lines)))"
  shows "py_strip k = k \<and> k \<noteq> []"
proof -
  from assms have "k \<in> set (load_txt_commands lines) \<or> k \<in> set emulator_commands"
    by (auto simp: VOShell_init_def Let_def)
  then show ?thesis
  proof
    assume "k \<in> set (load_txt_commands lines)"
    then show ?thesis by (rule load_txt_commands_stripped)
  next
    assume "k \<in> set emulator_commands"
    with emulator_commands_stripped have "\<not> is_space (hd k) \<and> \<not> is_space (last k) \<and> k \<noteq> []"
      by (simp add: list_all_iff)
    then show ?thesis by (simp add: py_strip_def strip_chars_fixed)
  qed
qed


lemma expand_alias_none: "\<not> alias_applies als line \<Longrightarrow> expand_alias als line = line"
proof -
  assume a: "\<not> alias_applies als line"
  have "find (\<lambda>a. py_lower line = a \<or> startswith (py_lower line) (a @ '' '')) (alias_order als) = None"
    using a by (auto simp: find_None_iff alias_applies_def alias_order_def list_ex_iff)
  then show ?thesis by (simp add: expand_alias_def)
qed

lemma commands_init:
  "commands (VOShell_init pack lines) =
     filter (\<lambda>(k, v). k \<notin> set (map fst ALIASES))
       (filter (\<lambda>(k, v). k \<in> set (load_txt_commands lines @ emulator_commands))
          (register_bulk (fold (\<lambda>(k, v) d. AList.update k (PackText v) d) pack BUILTINS)
             (load_txt_commands lines)))"
  by (simp add: VOShell_init_def Let_def)

lemma commands_ci_init:
  "map_of (commands_ci (VOShell_init pack lines)) key =
     map_of (rev (map (\<lambda>(k, v). (py_lower k, (k, v))) (commands (VOShell_init pack lines)))) key"
  by (simp add: VOShell_init_def Let_def map_of_dict_of)

lemma aliases_init:
  "aliases (VOShell_init pack lines) =
     [(''ls'', ''list''), (''ll'', ''list''), (''quit'', ''exit''), (''q'', ''exit''),
      (''show commands report'', ''show commands status'')]"
proof -
  have "dict_of (map (\<lambda>(k, v). (py_lower k, v)) ALIASES) =
     [(''ls'', ''list''), (''ll'', ''list''), (''quit'', ''exit''), (''q'', ''exit''),
      (''show commands report'', ''show commands status'')]"
    by code_simp
  then show ?thesis by (simp add: VOShell_init_def Let_def)
qed

lemma BUILTINS_allowed: "list_all (\<lambda>k. k \<in> set emulator_commands) (map fst BUILTINS)"
  by code_simp

lemma BUILTINS_not_alias:
  "filter (\<lambda>kv. fst kv \<notin> set (map fst ALIASES)) BUILTINS = butlast BUILTINS"
proof -
  have a1: "list_all (\<lambda>k. k \<notin> set (map fst ALIASES)) (map fst (butlast BUILTINS))"
    by code_simp
  have a2: "fst (last BUILTINS) \<in> set (map fst ALIASES)" by code_simp
  have a3: "BUILTINS \<noteq> []" by (simp add: BUILTINS_def)
  define P where "P = (\<lambda>kv :: string \<times> cmd_value. fst kv \<notin> set (map fst ALIASES))"
  have "BUILTINS = butlast BUILTINS @ [last BUILTINS]" using a3 by simp
  then have "filter P BUILTINS = filter P (butlast BUILTINS) @ filter P [last BUILTINS]"
    by (metis filter_append)
  moreover have "filter P (butlast BUILTINS) = butlast BUILTINS"
    using a1 by (auto simp: list_all_iff filter_id_conv P_def)
  moreover have "filter P [last BUILTINS] = []" using a2 by (simp add: P_def)
  ultimately show ?thesis unfolding P_def by simp
qed

lemma commands_txt:
  assumes "set txt \<inter> set (map fst BUILTINS) = {}" and "set txt \<inter> set (map fst ALIASES) = {}"
    and "register_bulk BUILTINS txt = BUILTINS @ map (\<lambda>x. (x, Stub x)) txt"
    and "load_txt_commands lines = txt"
  shows "commands (VOShell_init [] lines) = butlast BUILTINS @ map (\<lambda>x. (x, Stub x)) txt"
proof -
  define A where "A = (\<lambda>kv :: string \<times> cmd_value. fst kv \<in> set (txt @ emulator_commands))"
  define N where "N = (\<lambda>kv :: string \<times> cmd_value. fst kv \<notin> set (map fst ALIASES))"
  have c: "commands (VOShell_init [] lines) = filter N (filter A (register_bulk BUILTINS txt))"
    unfolding commands_init assms(4) A_def N_def by (simp add: case_prod_unfold)
  have fa: "filter A (BUILTINS @ map (\<lambda>x. (x, Stub x)) txt) = BUILTINS @ map (\<lambda>x. (x, Stub x)) txt"
    using BUILTINS_allowed by (auto simp: A_def list_all_iff filter_id_conv)
  have nb: "filter N BUILTINS = butlast BUILTINS" unfolding N_def by (rule BUILTINS_not_alias)
  have "filter N (map (\<lambda>x. (x, Stub x)) txt) = map (\<lambda>x. (x, Stub x)) txt"
    using assms(2) by (auto simp: N_def filter_id_conv)
  with nb have fn: "filter N (BUILTINS @ map (\<lambda>x. (x, Stub x)) txt) =
      butlast BUILTINS @ map (\<lambda>x. (x, Stub x)) txt"
    by simp
  show ?thesis unfolding c assms(3) fa fn ..
qed

lemma commands_default: "commands (VOShell_init [] []) = butlast BUILTINS"
  using commands_txt[of "[]" "[]"] by (simp add: load_txt_commands_def)

lemma commands_one_stub:
  assumes "py_strip x = x" and "x \<noteq> []" and "\<not> startswith x ''#''"
    and "x \<notin> set (map fst BUILTINS)" and "x \<notin> set (map fst ALIASES)"
  shows "commands (VOShell_init [] [x]) = butlast BUILTINS @ [(x, Stub x)]"
  using assms commands_txt[of "[x]" "[x]"] by (simp add: load_txt_commands_def Let_def)

lemma resolve_full_line:
  assumes "py_strip line0 \<noteq> []"
    and "map_of (commands_ci sh) (py_lower (expand_alias (aliases sh) (py_strip line0))) = Some (orig, val)"
  shows "resolve fnmatch get_close_matches sh line0 = (Some orig, Val val, [])"
  using assms by (simp add: resolve_def Let_def)

lemma resolve_exact_head:
  assumes "py_strip line0 \<noteq> []"
    and "expand_alias (aliases sh) (py_strip line0) = line"
    and "map_of (commands_ci sh) (py_lower line) = None"
    and "split_cmd_args line (commands_ci sh) = (head, args)"
    and "head \<noteq> []"
    and "map_of (commands_ci sh) (py_lower head) = Some (orig, val)"
  shows "resolve fnmatch get_close_matches sh line0 = (Some orig, Val val, args)"
  using assms by (simp add: resolve_def Let_def)

lemma resolve_ambiguous_steps:
  assumes "py_strip line0 \<noteq> []"
    and "expand_alias (aliases sh) (py_strip line0) = line"
    and "map_of (commands_ci sh) (py_lower line) = None"
    and "split_cmd_args line (commands_ci sh) = (head, args)"
    and "head \<noteq> []"
    and "map_of (commands_ci sh) (py_lower head) = None"
    and "candidates fnmatch (commands sh) (py_lower head) = cands"
    and "length cands > 1"
  shows "resolve fnmatch get_close_matches sh line0 = (None, Msg (ambiguous_message cands), [])"
proof -
  from assms(8) obtain c1 c2 cs where "cands = c1 # c2 # cs"
    by (cases cands; cases "tl cands") auto
  with assms show ?thesis by (simp add: resolve_def Let_def)
qed

section \<open>Resolving a registered name\<close>

text \<open>
  C3 (as stated). Resolving a registered name, in any letter case, returns that name with
  its handler and no arguments. Alias expansion runs before the exact match, and the
  case-insensitive table keeps one entry per lower-cased name. With \<^verbatim>\<open>LS\<close> in the
  text list, the registered name \<^verbatim>\<open>LS\<close> resolves to \<^verbatim>\<open>list\<close>; with \<^verbatim>\<open>LIST\<close> in
  the text list, the registered name \<^verbatim>\<open>list\<close> resolves to the stub \<^verbatim>\<open>LIST\<close>.
\<close>

theorem resolve_registered_name_counterexample:
  "(''LS'', Stub ''LS'') \<in> set (commands (VOShell_init [] [''LS''])) \<and>
   resolve glob no_close_matches (VOShell_init [] [''LS'']) ''LS'' =
     (Some ''list'', Val (Builtin ''h_list''), []) \<and>
   (''list'', Builtin ''h_list'') \<in> set (commands (VOShell_init [] [''LIST''])) \<and>
   resolve glob no_close_matches (VOShell_init [] [''LIST'']) ''list'' =
     (Some ''LIST'', Val (Stub ''LIST''), [])"
proof -
  have c1: "commands (VOShell_init [] [''LS'']) = butlast BUILTINS @ [(''LS'', Stub ''LS'')]"
    by (rule commands_one_stub; code_simp)
  have c2: "commands (VOShell_init [] [''LIST'']) = butlast BUILTINS @ [(''LIST'', Stub ''LIST'')]"
    by (rule commands_one_stub; code_simp)
  have r1: "(''LS'', Stub ''LS'') \<in> set (commands (VOShell_init [] [''LS'']))"
    unfolding c1 by simp
  have r2: "(''list'', Builtin ''h_list'') \<in> set (commands (VOShell_init [] [''LIST'']))"
    unfolding c2 by code_simp
  have s1: "py_strip ''LS'' \<noteq> []" and s2: "py_strip ''list'' \<noteq> []" by code_simp+
  have l1: "map_of (commands_ci (VOShell_init [] [''LS'']))
        (py_lower (expand_alias (aliases (VOShell_init [] [''LS''])) (py_strip ''LS'')))
      = Some (''list'', Builtin ''h_list'')"
    unfolding commands_ci_init aliases_init c1 by code_simp
  have l2: "map_of (commands_ci (VOShell_init [] [''LIST'']))
        (py_lower (expand_alias (aliases (VOShell_init [] [''LIST''])) (py_strip ''list'')))
      = Some (''LIST'', Stub ''LIST'')"
    unfolding commands_ci_init aliases_init c2 by code_simp
  from resolve_full_line[OF s1 l1] resolve_full_line[OF s2 l2] r1 r2 show ?thesis by blast
qed

text \<open>
  C3 (amended). For the registry built at start-up and every registered name \<open>n\<close> whose
  lower-cased form no other registered name shares and to which no alias pattern applies
  (none equals the lower-cased name or is a prefix of it followed by a space), resolving
  \<open>n\<close> in any letter case returns \<open>n\<close>, its registered value and no arguments: the
  full-line match is taken before the line is split into head and arguments.
\<close>

theorem resolve_registered_name:
  assumes sh: "sh = VOShell_init pack lines"
    and reg: "(n, v) \<in> set (commands sh)"
    and uniq: "\<forall>k \<in> set (map fst (commands sh)). py_lower k = py_lower n \<longrightarrow> k = n"
    and noalias: "\<not> alias_applies (aliases sh) n"
    and line: "py_lower line = py_lower n"
  shows "resolve fnmatch get_close_matches sh line = (Some n, Val v, [])"
proof -
  from reg have nk: "n \<in> set (map fst (commands sh))" by force
  with commands_init_stripped[of n pack lines] sh have n: "py_strip n = n" "n \<noteq> []" by auto
  from line n have l: "py_strip line = line" "line \<noteq> []"
    by (auto intro: py_strip_same_case simp: py_lower_def)
  from noalias line have "\<not> alias_applies (aliases sh) line" by (simp add: alias_applies_def)
  then have ex: "expand_alias (aliases sh) line = line" by (rule expand_alias_none)
  have dist: "distinct (map fst (commands sh))" unfolding sh by (rule distinct_commands_init)
  define kvs where "kvs = rev (map (\<lambda>(k, v). (py_lower k, (k, v))) (commands sh))"
  have ci: "map_of (commands_ci sh) k = map_of kvs k" for k
    unfolding sh kvs_def by (rule commands_ci_init)
  have "(py_lower n, (n, v)) \<in> set kvs" using reg by (force simp: kvs_def)
  moreover have "y = (n, v)" if "(py_lower n, y) \<in> set kvs" for y
  proof -
    from that obtain k w where kw: "(k, w) \<in> set (commands sh)" "py_lower k = py_lower n" "y = (k, w)"
      by (auto simp: kvs_def)
    with uniq have "k = n" by force
    with kw reg dist show ?thesis by (metis eq_key_imp_eq_value)
  qed
  ultimately have "map_of kvs (py_lower n) = Some (n, v)" by (rule map_of_unique_value)
  with ci line have "map_of (commands_ci sh) (py_lower line) = Some (n, v)" by simp
  with l ex show ?thesis by (simp add: resolve_def Let_def)
qed

theorem resolve_registered_name_witness:
  "(''show commands status'', Builtin ''h_show_commands_status'') \<in> set (commands (VOShell_init [] [])) \<and>
   \<not> alias_applies (aliases (VOShell_init [] [])) ''show commands status'' \<and>
   resolve glob no_close_matches (VOShell_init [] []) ''Show Commands STATUS'' =
     (Some ''show commands status'', Val (Builtin ''h_show_commands_status''), [])"
proof -
  have reg: "(''show commands status'', Builtin ''h_show_commands_status'')
      \<in> set (commands (VOShell_init [] []))"
    unfolding commands_default by code_simp
  have "list_all (\<lambda>k. k = ''show commands status'' \<or> py_lower k \<noteq> py_lower ''show commands status'')
          (map fst (butlast BUILTINS))"
    by code_simp
  then have uniq: "\<forall>k \<in> set (map fst (commands (VOShell_init [] []))).
      py_lower k = py_lower ''show commands status'' \<longrightarrow> k = ''show commands status''"
    unfolding commands_default list_all_iff by blast
  have na: "\<not> alias_applies (aliases (VOShell_init [] [])) ''show commands status''"
    unfolding aliases_init by code_simp
  have lc: "py_lower ''Show Commands STATUS'' = py_lower ''show commands status''" by code_simp
  from resolve_registered_name[OF refl reg uniq na lc] reg na show ?thesis by blast
qed

section \<open>Ambiguous heads\<close>

lemma resolve_display_d:
  "resolve glob no_close_matches (VOShell_init [] []) ''display_d'' =
     (None, Msg (ambiguous_message display_d_candidates), [])"
proof (rule resolve_ambiguous_steps[where line = "''display_d''" and head = "''display_d''" and args = "[]"])
  show "py_strip ''display_d'' \<noteq> []" by code_simp
  show "expand_alias (aliases (VOShell_init [] [])) (py_strip ''display_d'') = ''display_d''"
    unfolding aliases_init by code_simp
  show n: "map_of (commands_ci (VOShell_init [] [])) (py_lower ''display_d'') = None"
    unfolding commands_ci_init commands_default by code_simp
  show "split_cmd_args ''display_d'' (commands_ci (VOShell_init [] [])) = (''display_d'', [])"
  proof -
    have "py_words (py_strip ''display_d'') = [''display_d'']" by code_simp
    then show ?thesis by (simp add: split_cmd_args_def)
  qed
  show "''display_d'' \<noteq> []" by simp
  show "map_of (commands_ci (VOShell_init [] [])) (py_lower ''display_d'') = None" by (rule n)
  show "candidates glob (commands (VOShell_init [] [])) (py_lower ''display_d'') = display_d_candidates"
    unfolding commands_default by code_simp
  show "1 < length display_d_candidates" by (simp add: display_d_candidates_def)
qed

lemma resolve_display_file_x:
  "resolve glob no_close_matches (VOShell_init [] []) ''display_file x'' =
     (Some ''display_file'', Val (Builtin ''h_display_file''), [''x''])"
proof (rule resolve_exact_head[where line = "''display_file x''" and head = "''display_file''"])
  show "py_strip ''display_file x'' \<noteq> []" by code_simp
  show "expand_alias (aliases (VOShell_init [] [])) (py_strip ''display_file x'') = ''display_file x''"
    unfolding aliases_init by code_simp
  show n: "map_of (commands_ci (VOShell_init [] [])) (py_lower ''display_file x'') = None"
    unfolding commands_ci_init commands_default by code_simp
  show "split_cmd_args ''display_file x'' (commands_ci (VOShell_init [] [])) = (''display_file'', [''x''])"
  proof -
    have w: "py_words (py_strip ''display_file x'') = [''display_file'', ''x'']" by code_simp
    from n have "py_lower ''display_file x'' \<notin> set (map fst (commands_ci (VOShell_init [] [])))"
      by (simp add: map_of_eq_None_iff)
    with w show ?thesis by (simp add: split_cmd_args_def)
  qed
  show "''display_file'' \<noteq> []" by simp
  show "map_of (commands_ci (VOShell_init [] [])) (py_lower ''display_file'') =
      Some (''display_file'', Builtin ''h_display_file'')"
    unfolding commands_ci_init commands_default by code_simp
qed

text \<open>
  C4 (as stated). Whenever the head matches more than one registered command by prefix or
  glob, the resolver returns an ambiguous diagnostic with a sorted candidate list. The
  candidates come in registration order: \<^verbatim>\<open>display_d\<close> lists
  \<^verbatim>\<open>display_dir_status\<close>, \<^verbatim>\<open>display_disk_usage\<close>, \<^verbatim>\<open>display_date_time\<close>, ... And
  an exact match of the head wins over the search: \<^verbatim>\<open>display_file x\<close> runs
  \<^verbatim>\<open>display_file\<close> although the head is also a prefix of \<^verbatim>\<open>display_file_status\<close>.
\<close>

theorem resolve_ambiguous_counterexample:
  "resolve glob no_close_matches (VOShell_init [] []) ''display_d'' =
     (None, Msg (ambiguous_message display_d_candidates), []) \<and>
   \<not> sorted display_d_candidates \<and>
   candidates glob (commands (VOShell_init [] [])) (py_lower ''display_file'') =
     [''display_file'', ''display_file_status''] \<and>
   resolve glob no_close_matches (VOShell_init [] []) ''display_file x'' =
     (Some ''display_file'', Val (Builtin ''h_display_file''), [''x''])"
proof -
  have "\<not> sorted display_d_candidates" by code_simp
  moreover have "candidates glob (commands (VOShell_init [] [])) (py_lower ''display_file'') =
     [''display_file'', ''display_file_status'']"
    unfolding commands_default by code_simp
  ultimately show ?thesis using resolve_display_d resolve_display_file_x by blast
qed

text \<open>
  C4 (amended). When neither the alias-expanded line nor its head is, lower-cased, a
  registered name, and more than one registered command matches the lower-cased head by
  prefix or glob, the resolver returns no command and no arguments but the ambiguous
  message: the candidates in registration order, cut to the first 20, followed by the
  \<^verbatim>\<open>... (more)\<close> line exactly when there are more than 20.
\<close>

theorem resolve_ambiguous:
  assumes "py_strip line0 \<noteq> []"
    and "expand_alias (aliases sh) (py_strip line0) = line"
    and "map_of (commands_ci sh) (py_lower line) = None"
    and "split_cmd_args line (commands_ci sh) = (head, args)"
    and "head \<noteq> []"
    and "map_of (commands_ci sh) (py_lower head) = None"
    and "candidates fnmatch (commands sh) (py_lower head) = cands"
    and "length cands > 1"
  shows "resolve fnmatch get_close_matches sh line0 =
           (None,
            Msg (''Ambiguous command. Did you mean:'' @ nl @ ''  - ''
                 @ py_join (nl @ ''  - '') (take 20 cands)
                 @ (if length cands > 20 then nl @ ''  ... (more)'' else [])),
            []) \<and>
         cands = filter (\<lambda>k. startswith (py_lower k) (py_lower head) \<or>
                              fnmatch (py_lower k) (py_lower head))
                   (map fst (commands sh))"
  using resolve_ambiguous_steps[OF assms, of get_close_matches] assms(7)
  by (simp add: ambiguous_message_def candidates_def)

theorem resolve_ambiguous_witness:
  "resolve glob no_close_matches (VOShell_init [] []) ''display_d'' =
     (None,
      Msg (''Ambiguous command. Did you mean:'' @ nl @ ''  - ''
           @ py_join (nl @ ''  - '') (take 20 display_d_candidates)
           @ (if length display_d_candidates > 20 then nl @ ''  ... (more)'' else [])),
      []) \<and>
   length display_d_candidates = 5"
proof -
  have 1: "py_strip ''display_d'' \<noteq> []" by code_simp
  have 2: "expand_alias (aliases (VOShell_init [] [])) (py_strip ''display_d'') = ''display_d''"
    unfolding aliases_init by code_simp
  have 3: "map_of (commands_ci (VOShell_init [] [])) (py_lower ''display_d'') = None"
    unfolding commands_ci_init commands_default by code_simp
  have "py_words (py_strip ''display_d'') = [''display_d'']" by code_simp
  then have 4: "split_cmd_args ''display_d'' (commands_ci (VOShell_init [] [])) = (''display_d'', [])"
    by (simp add: split_cmd_args_def)
  have 5: "''display_d'' \<noteq> []" by simp
  have 7: "candidates glob (commands (VOShell_init [] [])) (py_lower ''display_d'') = display_d_candidates"
    unfolding commands_default by code_simp
  have 8: "1 < length display_d_candidates" by (simp add: display_d_candidates_def)
  have 9: "length display_d_candidates = 5" by (simp add: display_d_candidates_def)
  from resolve_ambiguous[OF 1 2 3 4 5 3 7 8, of no_close_matches, THEN conjunct1] 9
  show ?thesis by (rule conjI)
qed

declare str_nat.simps [simp del]

lemma str_nat_not_Nil: "str_nat n \<noteq> []"
  by (subst str_nat.simps) simp

lemma digit_char_inj: "a < 10 \<Longrightarrow> b < 10 \<Longrightarrow> digit_char a = digit_char b \<Longrightarrow> a = b"
proof -
  assume a: "a < 10" "b < 10" "digit_char a = digit_char b"
  then have "of_char (digit_char a) = (of_char (digit_char b) :: nat)" by simp
  with a(1,2) show ?thesis by (simp add: digit_char_def)
qed

lemma str_nat_inj: "str_nat n = str_nat m \<Longrightarrow> n = m"
proof (induction n arbitrary: m rule: str_nat.induct)
  case (1 n)
  show ?case
  proof (cases "n < 10")
    case True
    show ?thesis
    proof (cases "m < 10")
      case m: True
      with True "1.prems" show ?thesis
        by (simp add: str_nat.simps[of n] str_nat.simps[of m] digit_char_inj)
    next
      case m: False
      with True "1.prems" str_nat_not_Nil[of "m div 10"] show ?thesis
        by (simp add: str_nat.simps[of n] str_nat.simps[of m])
    qed
  next
    case False
    show ?thesis
    proof (cases "m < 10")
      case m: True
      with False "1.prems" str_nat_not_Nil[of "n div 10"] show ?thesis
        by (simp add: str_nat.simps[of n] str_nat.simps[of m])
    next
      case m: False
      with False "1.prems" have e: "str_nat (n div 10) = str_nat (m div 10)"
        "digit_char (n mod 10) = digit_char (m mod 10)"
        by (simp_all add: str_nat.simps[of n] str_nat.simps[of m])
      from "1.IH"[OF False e(1)] have "n div 10 = m div 10" .
      moreover from e(2) have "n mod 10 = m mod 10" by (intro digit_char_inj) auto
      ultimately show ?thesis by (metis div_mult_mod_eq)
    qed
  qed
qed



section \<open>Listing\<close>

lemma rows_of_files_map:
  "rows_of_files row q qd fnames =
     map (\<lambda>f. row q (os_path_join qd [f]) f) (filter (\<lambda>f. endswith f ''.job'') fnames)"
  by (induction fnames) auto

lemma rows_of_queues_listed:
  "rows_of_queues row fs br (case args of [] \<Rightarrow> None | a # _ \<Rightarrow> Some a) qs =
     Inr (map (\<lambda>(q, f). row q (job_path br q f) f) (listed_jobs fs br args qs))"
proof (induction qs)
  case Nil
  show ?case by (simp add: listed_jobs_def)
next
  case (Cons q qs)
  show ?case
  proof (cases "queue_listed fs br args q")
    case False
    then show ?thesis
      using Cons.IH
      by (cases args) (auto simp: queue_listed_def listed_jobs_def Let_def)
  next
    case True
    then have d: "fs_isdir fs (os_path_join br [q])" by (simp add: queue_listed_def)
    then obtain fnames where l: "listdir fs (os_path_join br [q]) = Inr fnames"
      by (simp add: listdir_def)
    from True have f: "\<not> (case (case args of [] \<Rightarrow> None | a # _ \<Rightarrow> Some a) of
        None \<Rightarrow> False | Some f \<Rightarrow> f \<noteq> [] \<and> q \<noteq> f)"
      by (cases args) (auto simp: queue_listed_def)
    have lj: "listed_jobs fs br args (q # qs) =
        map (Pair q) (filter (\<lambda>f. endswith f ''.job'') (sort fnames)) @ listed_jobs fs br args qs"
      using True l by (simp add: listed_jobs_def)
    show ?thesis
      using f d l Cons.IH
      by (simp add: lj rows_of_files_map Let_def job_path_def comp_def)
  qed
qed

lemma batch_listing_rows:
  assumes "listdir fs (BATCH_ROOT g) = Inr queue_names"
  shows "batch_listing name headers row args g fs =
     (let rows = map (\<lambda>(q, f). row q (job_path (BATCH_ROOT g) q f) f)
                   (listed_jobs fs (BATCH_ROOT g) args (sort queue_names))
      in if rows = [] then (Text ''(no batch requests)'', g) else (Table headers rows, g))"
  using assms by (simp add: batch_listing_def rows_of_queues_listed Let_def)

lemma listed_jobs_member:
  assumes "queue_name \<in> set queue_names" and "queue_listed fs br args queue_name"
    and "listdir fs (os_path_join br [queue_name]) = Inr fnames"
    and "fname \<in> set fnames" and "endswith fname ''.job''"
  shows "(queue_name, fname) \<in> set (listed_jobs fs br args (sort queue_names))"
  using assms by (force simp: listed_jobs_def)

lemma unreadable_rows:
  assumes "read_json fs job_file = Inl e"
  shows "status_row fs q job_file fname =
           [JStr q, JStr (base_name fname), JStr [], JStr [], JStr ''unreadable'']"
    and "request_row fs q job_file fname = [JStr q, JStr (base_name fname), JStr []]"
  using assms by (simp_all add: status_row_def request_row_def)

text \<open>
  C8 (amended). Both listings give every \<^verbatim>\<open>.job\<close> file of every listed queue directory
  one row, in sorted order, whether its record can be read or not: a record that fails to
  parse never ends the enumeration. For such a record \<^verbatim>\<open>display_batch_status\<close> gives the
  row (queue, file base name, empty, empty, \<^verbatim>\<open>unreadable\<close>), and
  \<^verbatim>\<open>list_batch_requests\<close>, which has no status column, gives the row (queue, file base
  name, empty).
\<close>

theorem listing_keeps_unreadable_jobs:
  assumes "listdir fs (BATCH_ROOT g) = Inr queue_names"
    and "queue_name \<in> set queue_names"
    and "queue_listed fs (BATCH_ROOT g) args queue_name"
    and "listdir fs (os_path_join (BATCH_ROOT g) [queue_name]) = Inr fnames"
    and "fname \<in> set fnames" and "endswith fname ''.job''"
    and "read_json fs (job_path (BATCH_ROOT g) queue_name fname) = Inl e"
    and "jobs = listed_jobs fs (BATCH_ROOT g) args (sort queue_names)"
  shows "h_display_batch_status args g fs =
           (Table [''Queue'', ''Process'', ''QueuePri'', ''ProcPri'', ''Status'']
              (map (\<lambda>(q, f). status_row fs q (job_path (BATCH_ROOT g) q f) f) jobs), g) \<and>
         h_list_batch_requests args g fs =
           (Table [''Queue'', ''Process'', ''QueuePri'']
              (map (\<lambda>(q, f). request_row fs q (job_path (BATCH_ROOT g) q f) f) jobs), g) \<and>
         (queue_name, fname) \<in> set jobs \<and>
         status_row fs queue_name (job_path (BATCH_ROOT g) queue_name fname) fname =
           [JStr queue_name, JStr (base_name fname), JStr [], JStr [], JStr ''unreadable''] \<and>
         request_row fs queue_name (job_path (BATCH_ROOT g) queue_name fname) fname =
           [JStr queue_name, JStr (base_name fname), JStr []]"
proof -
  have m: "(queue_name, fname) \<in> set jobs"
    unfolding assms(8) using assms(2-6) by (rule listed_jobs_member)
  then have ne: "jobs \<noteq> []" by auto
  show ?thesis
    using m ne unreadable_rows[OF assms(7)] batch_listing_rows[OF assms(1)]
    by (simp add: h_display_batch_status_def h_list_batch_requests_def assms(8)[symmetric] Let_def)
qed



text \<open>
  C8 (as stated). Every batch listing reports a record that fails to parse as a row with
  the status \<^verbatim>\<open>unreadable\<close>. The rows of \<^verbatim>\<open>list_batch_requests\<close> have three columns
  and no status: the unreadable \<^verbatim>\<open>broken.job\<close> appears as (\<^verbatim>\<open>normal\<close>, \<^verbatim>\<open>broken\<close>,
  empty).
\<close>

theorem listing_counterexample:
  "read_json fs_example (job_path (BATCH_ROOT globals_example) ''normal'' ''broken.job'')
     = Inl OSError \<and>
   h_list_batch_requests [] globals_example fs_example =
     (Table [''Queue'', ''Process'', ''QueuePri'']
        [[JStr ''nightly'', JStr ''sales'', JInt 4],
         [JStr ''normal'', JStr ''broken'', JStr []],
         [JStr ''normal'', JStr ''report'', JInt 4]],
      globals_example)"
  by code_simp

theorem listing_keeps_unreadable_jobs_witness:
  "read_json fs_example (job_path (BATCH_ROOT globals_example) ''normal'' ''broken.job'')
     = Inl OSError \<and>
   (''normal'', ''broken.job'') \<in> set (listed_jobs fs_example (BATCH_ROOT globals_example) []
      (sort [''normal'', ''notes.txt'', ''nightly''])) \<and>
   status_row fs_example ''normal''
      (job_path (BATCH_ROOT globals_example) ''normal'' ''broken.job'') ''broken.job'' =
     [JStr ''normal'', JStr ''broken'', JStr [], JStr [], JStr ''unreadable'']"
proof -
  have 1: "listdir fs_example (BATCH_ROOT globals_example) = Inr [''normal'', ''notes.txt'', ''nightly'']"
    by code_simp
  have 2: "''normal'' \<in> set [''normal'', ''notes.txt'', ''nightly'']" by simp
  have 3: "queue_listed fs_example (BATCH_ROOT globals_example) [] ''normal''" by code_simp
  have 4: "listdir fs_example (os_path_join (BATCH_ROOT globals_example) [''normal''])
      = Inr [''report.job'', ''broken.job'']"
    by code_simp
  have 5: "''broken.job'' \<in> set [''report.job'', ''broken.job'']" by simp
  have 6: "endswith ''broken.job'' ''.job''" by code_simp
  have 7: "read_json fs_example (job_path (BATCH_ROOT globals_example) ''normal'' ''broken.job'')
      = Inl OSError"
    by code_simp
  have 8: "base_name ''broken.job'' = ''broken''" by code_simp
  from listing_keeps_unreadable_jobs[OF 1 2 3 4 5 6 7 refl] 7 8 show ?thesis by simp
qed

section \<open>The loops over queues and job files\<close>

lemma job_loop_invariant:
  assumes step: "\<And>fs jf fname fs' k n. Inv fs n \<Longrightarrow> step fs jf fname = Inr (fs', k) \<Longrightarrow> Inv fs' (n + k)"
  shows "Inv fs n \<Longrightarrow> job_loop step fs qd n names = Inr (fs', n') \<Longrightarrow> Inv fs' n'"
proof (induction names arbitrary: fs n)
  case Nil
  then show ?case by simp
next
  case (Cons fname names)
  show ?case
  proof (cases "endswith fname ''.job''")
    case False
    with Cons.prems Cons.IH[of fs n] show ?thesis by simp
  next
    case True
    show ?thesis
    proof (cases "step fs (os_path_join qd [fname]) fname")
      case (Inl e)
      with True Cons.prems(2) show ?thesis by simp
    next
      case (Inr r)
      obtain fs1 k where r: "r = (fs1, k)" by (cases r)
      from step[OF Cons.prems(1)] Inr r have "Inv fs1 (n + k)" by simp
      moreover from True Inr r Cons.prems(2)
      have "job_loop step fs1 qd (n + k) names = Inr (fs', n')" by simp
      ultimately show ?thesis by (rule Cons.IH)
    qed
  qed
qed

lemma job_loop_invariant_raised:
  assumes step: "\<And>fs jf fname fs' k n. Inv fs n \<Longrightarrow> step fs jf fname = Inr (fs', k) \<Longrightarrow> Inv fs' (n + k)"
  shows "Inv fs n \<Longrightarrow> job_loop step fs qd n names = Inl (e, fs') \<Longrightarrow> \<exists>m. Inv fs' m"
proof (induction names arbitrary: fs n)
  case Nil
  then show ?case by simp
next
  case (Cons fname names)
  show ?case
  proof (cases "endswith fname ''.job''")
    case False
    with Cons.prems Cons.IH[of fs n] show ?thesis by simp
  next
    case True
    show ?thesis
    proof (cases "step fs (os_path_join qd [fname]) fname")
      case (Inl e')
      with True Cons.prems show ?thesis by auto
    next
      case (Inr r)
      obtain fs1 k where r: "r = (fs1, k)" by (cases r)
      from step[OF Cons.prems(1)] Inr r have "Inv fs1 (n + k)" by simp
      moreover from True Inr r Cons.prems(2)
      have "job_loop step fs1 qd (n + k) names = Inl (e, fs')" by simp
      ultimately show ?thesis by (rule Cons.IH)
    qed
  qed
qed

lemma queue_loop_invariant:
  assumes step: "\<And>fs jf fname fs' k n. Inv fs n \<Longrightarrow> step fs jf fname = Inr (fs', k) \<Longrightarrow> Inv fs' (n + k)"
  shows "Inv fs n \<Longrightarrow> queue_loop step br fs n qs = Inr (fs', n') \<Longrightarrow> Inv fs' n'"
proof (induction qs arbitrary: fs n)
  case Nil
  then show ?case by simp
next
  case (Cons q qs)
  define qd where "qd = os_path_join br [q]"
  show ?case
  proof (cases "fs_isdir fs qd")
    case False
    with Cons.prems Cons.IH[of fs n] show ?thesis by (simp add: qd_def)
  next
    case True
    then obtain fnames where l: "listdir fs qd = Inr fnames" by (simp add: listdir_def)
    show ?thesis
    proof (cases "job_loop step fs qd n fnames")
      case (Inl x)
      with True l Cons.prems(2) show ?thesis by (simp add: qd_def[symmetric])
    next
      case (Inr r)
      obtain fs1 n1 where r: "r = (fs1, n1)" by (cases r)
      from job_loop_invariant[of Inv step, OF step Cons.prems(1)] Inr r have "Inv fs1 n1" by simp
      moreover from True l Inr r Cons.prems(2)
      have "queue_loop step br fs1 n1 qs = Inr (fs', n')" by (simp add: qd_def[symmetric])
      ultimately show ?thesis by (rule Cons.IH)
    qed
  qed
qed

lemma queue_loop_invariant_raised:
  assumes step: "\<And>fs jf fname fs' k n. Inv fs n \<Longrightarrow> step fs jf fname = Inr (fs', k) \<Longrightarrow> Inv fs' (n + k)"
  shows "Inv fs n \<Longrightarrow> queue_loop step br fs n qs = Inl (e, fs') \<Longrightarrow> \<exists>m. Inv fs' m"
proof (induction qs arbitrary: fs n)
  case Nil
  then show ?case by simp
next
  case (Cons q qs)
  define qd where "qd = os_path_join br [q]"
  show ?case
  proof (cases "fs_isdir fs qd")
    case False
    with Cons.prems Cons.IH[of fs n] show ?thesis by (simp add: qd_def)
  next
    case True
    then obtain fnames where l: "listdir fs qd = Inr fnames" by (simp add: listdir_def)
    show ?thesis
    proof (cases "job_loop step fs qd n fnames")
      case (Inl x)
      with True l Cons.prems(2) have "x = (e, fs')" by (simp add: qd_def[symmetric])
      with Inl job_loop_invariant_raised[of Inv step, OF step Cons.prems(1)] show ?thesis by simp
    next
      case (Inr r)
      obtain fs1 n1 where r: "r = (fs1, n1)" by (cases r)
      from job_loop_invariant[of Inv step, OF step Cons.prems(1)] Inr r have "Inv fs1 n1" by simp
      moreover from True l Inr r Cons.prems(2)
      have "queue_loop step br fs1 n1 qs = Inl (e, fs')" by (simp add: qd_def[symmetric])
      ultimately show ?thesis by (rule Cons.IH)
    qed
  qed
qed

section \<open>Cancelling\<close>

lemma match_any_text:
  "match_any fnmatch (JStr s) patterns = Inr (matches_any fnmatch s patterns)"
  by (induction patterns) (auto simp: matches_any_def lower_json_def)

lemma ok_not_err: "ok msg \<noteq> fst (err msg' g)"
  by (simp add: ok_def err_def)

lemma cancel_job_cases:
  assumes "cancel_job fnmatch patterns fs jf fname = Inr (fs', k)"
  shows "(fs' = fs \<and> k = 0) \<or>
         (\<exists>c. map_of fs jf = Some (File c False) \<and> fs' = AList.delete jf fs \<and> k = 1)"
  using assms
  by (auto simp: cancel_job_def fs_remove_def Let_def
           split: sum.splits bool.splits option.splits node.splits if_splits)

lemma cancel_job_unreadable:
  assumes "map_of fs jf = Some (File None l)"
  shows "cancel_job fnmatch patterns fs jf fname =
           Inr (if matches_any fnmatch (base_name fname) patterns \<and> \<not> l
                then (AList.delete jf fs, 1) else (fs, 0))"
  using assms
  by (cases "matches_any fnmatch (base_name fname) patterns"; cases l)
     (simp_all add: cancel_job_def read_json_def match_any_text fs_remove_def)

lemma finite_removed: "finite (removed fs fs')"
proof -
  have "removed fs fs' \<subseteq> dom (map_of fs)" by (auto simp: removed_def fs_exists_def)
  then show ?thesis by (rule finite_subset) (rule finite_dom_map_of)
qed

lemma cancel_inv_step:
  assumes "cancel_inv fs0 fs n" and "cancel_job fnmatch patterns fs jf fname = Inr (fs', k)"
  shows "cancel_inv fs0 fs' (n + k)"
proof -
  from cancel_job_cases[OF assms(2)] show ?thesis
  proof
    assume "fs' = fs \<and> k = 0"
    with assms(1) show ?thesis by simp
  next
    assume "\<exists>c. map_of fs jf = Some (File c False) \<and> fs' = AList.delete jf fs \<and> k = 1"
    then obtain c where c: "map_of fs jf = Some (File c False)" "fs' = AList.delete jf fs" "k = 1"
      by blast
    have m: "map_of fs' p = (if p = jf then None else map_of fs p)" for p
      by (simp add: c(2) delete_conv')
    from assms(1) c(1) have j0: "map_of fs0 jf = Some (File c False)"
      by (metis cancel_inv_def option.distinct(1))
    have "removed fs0 fs' = insert jf (removed fs0 fs)"
      using c(1) j0 by (auto simp: removed_def fs_exists_def m)
    moreover have "jf \<notin> removed fs0 fs" using c(1) by (simp add: removed_def fs_exists_def)
    ultimately have "card (removed fs0 fs') = Suc (card (removed fs0 fs))"
      by (simp add: finite_removed)
    with assms(1) c(3) m show ?thesis by (auto simp: cancel_inv_def)
  qed
qed

lemma cancel_keeps_dirs:
  assumes "map_of fs d = Some Dir" and "cancel_job fnmatch patterns fs jf fname = Inr (fs', k)"
  shows "map_of fs' d = Some Dir"
  using cancel_job_cases[OF assms(2)] assms(1) by (auto simp: delete_conv')

lemma target_inv_other_step:
  assumes "target_inv fnmatch patterns P fname l done fs"
    and "cancel_job fnmatch patterns fs jf fname' = Inr (fs', k)"
    and "jf \<noteq> P"
  shows "target_inv fnmatch patterns P fname l done fs'"
  using cancel_job_cases[OF assms(2)] assms(1,3) by (auto simp: target_inv_def delete_conv')

lemma target_inv_own_step:
  assumes "target_inv fnmatch patterns P fname l done fs"
    and "cancel_job fnmatch patterns fs P fname = Inr (fs', k)"
  shows "target_inv fnmatch patterns P fname l True fs'"
proof (cases "map_of fs P = Some (File None l)")
  case True
  from cancel_job_unreadable[OF True, of fnmatch patterns fname] assms(2)
  show ?thesis using True by (auto simp: target_inv_def delete_conv' split: if_splits)
next
  case False
  with assms(1) have n: "map_of fs P = None" "done" "matches_any fnmatch (base_name fname) patterns" "\<not> l"
    by (auto simp: target_inv_def split: if_splits)
  from cancel_job_cases[OF assms(2)] n(1) have "fs' = fs" by auto
  with n show ?thesis by (simp add: target_inv_def)
qed

lemma set_map_filter_conv: "set (List.map_filter f xs) = {y. \<exists>x \<in> set xs. f x = Some y}"
  by (induction xs) (auto simp: map_filter_simps split: option.splits)

lemma listdir_set:
  assumes "listdir fs d = Inr names"
  shows "set names = {y. \<exists>p \<in> fst ` set fs. child_name d p = Some y}"
proof -
  from assms have "names = List.map_filter (child_name d) (map fst fs)"
    by (simp add: listdir_def split: if_splits)
  then show ?thesis by (simp only: set_map_filter_conv set_map)
qed

lemma listdir_names:
  assumes "listdir fs d = Inr names" and "x \<in> set names"
  shows "basename (os_path_join d [x]) = x" and "x \<noteq> []" and "fs_exists fs (os_path_join d [x])"
proof -
  from assms(2) listdir_set[OF assms(1)]
  obtain p where p: "p \<in> fst ` set fs" "child_name d p = Some x" by blast
  from p(2) have x: "x = basename p" "x \<noteq> []" "os_path_join d [x] = p"
    by (auto simp: child_name_def Let_def split: if_splits)
  from x show "basename (os_path_join d [x]) = x" and "x \<noteq> []" by simp_all
  from p(1) x(3) show "fs_exists fs (os_path_join d [x])"
    by (simp add: fs_exists_def map_of_eq_None_iff)
qed

lemma listdir_member:
  assumes "listdir fs d = Inr names" and "fs_exists fs P" and "basename P = x" and "x \<noteq> []"
    and "os_path_join d [x] = P"
  shows "x \<in> set names"
proof -
  from assms(2) have "P \<in> fst ` set fs" by (simp add: fs_exists_def map_of_eq_None_iff)
  moreover from assms(3-5) have "child_name d P = Some x" by (simp add: child_name_def)
  ultimately show ?thesis unfolding listdir_set[OF assms(1)] by blast
qed

lemma target_job_loop:
  assumes "target_inv fnmatch patterns P fname l done fs"
    and "basename P = fname"
    and "\<forall>x \<in> set names. basename (os_path_join qd [x]) = x"
    and "job_loop (cancel_job fnmatch patterns) fs qd n names = Inr (fs', n')"
  shows "\<exists>done'. target_inv fnmatch patterns P fname l done' fs' \<and> (done \<longrightarrow> done') \<and>
           (fname \<in> set names \<and> endswith fname ''.job'' \<and> os_path_join qd [fname] = P \<longrightarrow> done')"
  using assms(1,3,4)
proof (induction names arbitrary: fs n "done")
  case Nil
  then show ?case by auto
next
  case (Cons x names)
  show ?case
  proof (cases "endswith x ''.job''")
    case False
    with Cons.prems have "job_loop (cancel_job fnmatch patterns) fs qd n names = Inr (fs', n')"
      by simp
    from Cons.IH[OF Cons.prems(1) _ this] Cons.prems(2) False show ?thesis by auto
  next
    case True
    show ?thesis
    proof (cases "cancel_job fnmatch patterns fs (os_path_join qd [x]) x")
      case (Inl e)
      with True Cons.prems(3) show ?thesis by simp
    next
      case (Inr r)
      obtain fs1 k where r: "r = (fs1, k)" by (cases r)
      from True Inr r Cons.prems(3)
      have rest: "job_loop (cancel_job fnmatch patterns) fs1 qd (n + k) names = Inr (fs', n')"
        by simp
      show ?thesis
      proof (cases "os_path_join qd [x] = P")
        case same: True
        with Cons.prems(2) assms(2) have "x = fname" by auto
        with same Inr r have "cancel_job fnmatch patterns fs P fname = Inr (fs1, k)" by simp
        from target_inv_own_step[OF Cons.prems(1) this]
        have "target_inv fnmatch patterns P fname l True fs1" .
        from Cons.IH[OF this _ rest] Cons.prems(2) show ?thesis by auto
      next
        case other: False
        from Inr r have "cancel_job fnmatch patterns fs (os_path_join qd [x]) x = Inr (fs1, k)"
          by simp
        from target_inv_other_step[OF Cons.prems(1) this other]
        have "target_inv fnmatch patterns P fname l done fs1" .
        from Cons.IH[OF this _ rest] Cons.prems(2) other show ?thesis by auto
      qed
    qed
  qed
qed

lemma job_loop_keeps_dir:
  assumes "map_of fs d = Some Dir"
    and "job_loop (cancel_job fnmatch patterns) fs qd n names = Inr (fs', n')"
  shows "map_of fs' d = Some Dir"
  using job_loop_invariant[of "\<lambda>fs n. map_of fs d = Some Dir" "cancel_job fnmatch patterns"
      fs n qd names fs' n'] cancel_keeps_dirs assms
  by blast

lemma target_queue_loop:
  assumes "target_inv fnmatch patterns P fname l done fs"
    and "basename P = fname" and "endswith fname ''.job''"
    and "P = os_path_join (os_path_join br [q]) [fname]"
    and "map_of fs (os_path_join br [q]) = Some Dir"
    and "queue_loop (cancel_job fnmatch patterns) br fs n qs = Inr (fs', n')"
  shows "\<exists>done'. target_inv fnmatch patterns P fname l done' fs' \<and> (done \<longrightarrow> done') \<and>
           (q \<in> set qs \<longrightarrow> done')"
  using assms(1,5,6)
proof (induction qs arbitrary: fs n "done")
  case Nil
  then show ?case by auto
next
  case (Cons q' qs)
  define qd where "qd = os_path_join br [q']"
  show ?case
  proof (cases "fs_isdir fs qd")
    case False
    with Cons.prems(3) have rest: "queue_loop (cancel_job fnmatch patterns) br fs n qs = Inr (fs', n')"
      by (simp add: qd_def)
    from False Cons.prems(2) have "q' \<noteq> q" by (auto simp: fs_isdir_def qd_def)
    with Cons.IH[OF Cons.prems(1,2) rest] show ?thesis by auto
  next
    case True
    then obtain fnames where l: "listdir fs qd = Inr fnames" by (simp add: listdir_def)
    show ?thesis
    proof (cases "job_loop (cancel_job fnmatch patterns) fs qd n fnames")
      case (Inl x)
      with True l Cons.prems(3) show ?thesis by (simp add: qd_def[symmetric])
    next
      case (Inr r)
      obtain fs1 n1 where r: "r = (fs1, n1)" by (cases r)
      from True l Inr r Cons.prems(3)
      have rest: "queue_loop (cancel_job fnmatch patterns) br fs1 n1 qs = Inr (fs', n')"
        by (simp add: qd_def[symmetric])
      from Inr r have jl: "job_loop (cancel_job fnmatch patterns) fs qd n fnames = Inr (fs1, n1)"
        by simp
      have names: "\<forall>x \<in> set fnames. basename (os_path_join qd [x]) = x"
        using listdir_names(1)[OF l] by blast
      from target_job_loop[OF Cons.prems(1) assms(2) names jl]
      obtain done1 where d1: "target_inv fnmatch patterns P fname l done1 fs1" "done \<longrightarrow> done1"
        "fname \<in> set fnames \<and> endswith fname ''.job'' \<and> os_path_join qd [fname] = P \<longrightarrow> done1"
        by blast
      have dir1: "map_of fs1 (os_path_join br [q]) = Some Dir"
        using Cons.prems(2) jl by (rule job_loop_keeps_dir)
      from Cons.IH[OF d1(1) dir1 rest]
      obtain done' where d': "target_inv fnmatch patterns P fname l done' fs'" "done1 \<longrightarrow> done'"
        "q \<in> set qs \<longrightarrow> done'"
        by blast
      have "done'" if "q' = q"
      proof (cases "fs_exists fs P")
        case ex: True
        from assms(3) have "fname \<noteq> []" by (auto simp: endswith_def)
        with listdir_member[OF l ex assms(2)] assms(4) that have "fname \<in> set fnames"
          by (simp add: qd_def)
        with d1(3) d'(2) assms(3,4) that show ?thesis by (simp add: qd_def)
      next
        case nex: False
        with Cons.prems(1) have "done" by (auto simp: target_inv_def fs_exists_def split: if_splits)
        with d1(2) d'(2) show ?thesis by simp
      qed
      with d' d1(2) show ?thesis by auto
    qed
  qed
qed

lemma cancel_reply_ok:
  assumes "h_cancel_batch_requests fnmatch args g fs = (ok msg, g', fs')"
  shows "\<exists>queue_names n. listdir fs (BATCH_ROOT g) = Inr queue_names \<and>
           queue_loop (cancel_job fnmatch args) (BATCH_ROOT g) fs 0 queue_names = Inr (fs', n) \<and>
           msg = ''cancelled '' @ str_nat n @ '' batch request(s)''"
proof (cases "args = []")
  case True
  with assms show ?thesis by (simp add: h_cancel_batch_requests_def err_def ok_def)
next
  case False
  show ?thesis
  proof (cases "listdir fs (BATCH_ROOT g)")
    case (Inl e)
    with False assms show ?thesis by (simp add: h_cancel_batch_requests_def err_def ok_def)
  next
    case (Inr queue_names)
    show ?thesis
    proof (cases "queue_loop (cancel_job fnmatch args) (BATCH_ROOT g) fs 0 queue_names")
      case (Inl x)
      with False Inr assms show ?thesis
        by (cases x) (simp add: h_cancel_batch_requests_def err_def ok_def)
    next
      case r: (Inr r)
      with False Inr assms show ?thesis
        by (cases r) (simp add: h_cancel_batch_requests_def ok_def)
    qed
  qed
qed

text \<open>
  C10 (as stated). An unreadable job file whose base name matches a pattern is deleted and
  counted. The removal is guarded: when the host refuses it, the file stays and is not
  counted.
\<close>

theorem cancel_unreadable_job_counterexample:
  "map_of fs_locked_example (job_path (BATCH_ROOT globals_example) ''normal'' ''broken.job'')
     = Some (File None True) \<and>
   glob (py_lower (base_name ''broken.job'')) (py_lower ''broken'') \<and>
   h_cancel_batch_requests glob [''broken''] globals_example fs_locked_example =
     (''[OK] cancelled 0 batch request(s)'', globals_example, fs_locked_example)"
  by code_simp

text \<open>
  C10 (amended). Take a stored \<^verbatim>\<open>.job\<close> file whose record fails to parse, and a run of
  \<^verbatim>\<open>cancel_batch_requests\<close> that returns a count. The count is the number of files the run
  removed. The file's base name (the name without \<^verbatim>\<open>.job\<close>) stands for the process
  name: when it matches one of the patterns, letter case aside, and the host lets the file be
  removed, the file is among those removed and counted; otherwise it is left as it was.
\<close>

theorem cancel_unreadable_job:
  assumes "listdir fs (BATCH_ROOT g) = Inr queue_names"
    and "queue_name \<in> set queue_names"
    and "listdir fs (os_path_join (BATCH_ROOT g) [queue_name]) = Inr fnames"
    and "fname \<in> set fnames" and "endswith fname ''.job''"
    and "map_of fs (job_path (BATCH_ROOT g) queue_name fname) = Some (File None l)"
    and "h_cancel_batch_requests fnmatch args g fs = (ok msg, g', fs')"
  shows "\<exists>n. msg = ''cancelled '' @ str_nat n @ '' batch request(s)'' \<and>
              n = card (removed fs fs') \<and>
              (if matches_any fnmatch (base_name fname) args \<and> \<not> l
               then job_path (BATCH_ROOT g) queue_name fname \<in> removed fs fs'
               else map_of fs' (job_path (BATCH_ROOT g) queue_name fname) = Some (File None l))"
proof -
  define P where "P = job_path (BATCH_ROOT g) queue_name fname"
  from cancel_reply_ok[OF assms(7)] assms(1) obtain n
    where ql: "queue_loop (cancel_job fnmatch args) (BATCH_ROOT g) fs 0 queue_names = Inr (fs', n)"
      and msg: "msg = ''cancelled '' @ str_nat n @ '' batch request(s)''"
    by auto
  have "cancel_inv fs fs 0" by (simp add: cancel_inv_def removed_def)
  from queue_loop_invariant[of "cancel_inv fs" "cancel_job fnmatch args", OF cancel_inv_step this ql]
  have n: "n = card (removed fs fs')" by (simp add: cancel_inv_def)
  have t0: "target_inv fnmatch args P fname l False fs"
    using assms(6) by (simp add: target_inv_def P_def)
  have b: "basename P = fname"
    using listdir_names(1)[OF assms(3,4)] by (simp add: P_def job_path_def)
  have d: "map_of fs (os_path_join (BATCH_ROOT g) [queue_name]) = Some Dir"
    using assms(3) by (simp add: listdir_def fs_isdir_def split: if_splits)
  have p: "P = os_path_join (os_path_join (BATCH_ROOT g) [queue_name]) [fname]"
    by (simp add: P_def job_path_def)
  from target_queue_loop[OF t0 b assms(5) p d ql] assms(2)
  have t: "target_inv fnmatch args P fname l True fs'" by auto
  have "fs_exists fs P" using assms(6) by (simp add: fs_exists_def P_def)
  with t have "if matches_any fnmatch (base_name fname) args \<and> \<not> l
               then P \<in> removed fs fs' else map_of fs' P = Some (File None l)"
    by (auto simp: target_inv_def removed_def fs_exists_def)
  with msg n show ?thesis unfolding P_def by blast
qed

theorem cancel_unreadable_job_witness:
  "map_of fs_example (job_path (BATCH_ROOT globals_example) ''normal'' ''broken.job'')
     = Some (File None False) \<and>
   matches_any glob (base_name ''broken.job'') [''BRO*'', ''sales''] \<and>
   h_cancel_batch_requests glob [''BRO*'', ''sales''] globals_example fs_example =
     (ok ''cancelled 2 batch request(s)'', globals_example, fs_cancelled_example) \<and>
   job_path (BATCH_ROOT globals_example) ''normal'' ''broken.job''
     \<in> removed fs_example fs_cancelled_example \<and>
   card (removed fs_example fs_cancelled_example) = 2"
proof -
  have 1: "listdir fs_example (BATCH_ROOT globals_example) = Inr [''normal'', ''notes.txt'', ''nightly'']"
    by code_simp
  have 2: "''normal'' \<in> set [''normal'', ''notes.txt'', ''nightly'']" by simp
  have 3: "listdir fs_example (os_path_join (BATCH_ROOT globals_example) [''normal''])
      = Inr [''report.job'', ''broken.job'']"
    by code_simp
  have 4: "''broken.job'' \<in> set [''report.job'', ''broken.job'']" by simp
  have 5: "endswith ''broken.job'' ''.job''" by code_simp
  have 6: "map_of fs_example (job_path (BATCH_ROOT globals_example) ''normal'' ''broken.job'')
     = Some (File None False)"
    by code_simp
  have 7: "h_cancel_batch_requests glob [''BRO*'', ''sales''] globals_example fs_example =
     (ok ''cancelled 2 batch request(s)'', globals_example, fs_cancelled_example)"
    by code_simp
  have 8: "matches_any glob (base_name ''broken.job'') [''BRO*'', ''sales'']" by code_simp
  from cancel_unreadable_job[OF 1 2 3 4 5 6 7] 8
  obtain n where n: "''cancelled 2 batch request(s)'' = ''cancelled '' @ str_nat n @ '' batch request(s)''"
    "n = card (removed fs_example fs_cancelled_example)"
    "job_path (BATCH_ROOT globals_example) ''normal'' ''broken.job''
       \<in> removed fs_example fs_cancelled_example"
    by auto
  have "str_nat 2 = ''2''" by code_simp
  with n(1) have "str_nat n = str_nat 2" by simp
  then have "n = 2" by (rule str_nat_inj)
  with n 6 7 8 show ?thesis by simp
qed

section \<open>Updating\<close>






















section \<open>The loops, with the names that a listing gives\<close>







section \<open>Updating: what the loops keep\<close>





















end
